theory Spec2Isabelle
  imports Complex_Main
begin

section \<open>Data model\<close>

text \<open>
  \<^verbatim>\<open>Player.Team\<close> and \<^verbatim>\<open>MapNode.NodeType\<close> are the two enums of the source, in the
  source's order.
\<close>

datatype Team = Neutral | Red | Blue | Green | Yellow | Orange | Purple

datatype NodeType = Normal | Factory | PowerPlant | Fort | Artillery

text \<open>
  A \<^verbatim>\<open>MapNode\<close> object lives in \<^verbatim>\<open>Map.nodes\<close> for the whole game. The \<^verbatim>\<open>Map\<close>
  constructor gives every node the id \<^verbatim>\<open>this.nodes.length\<close> right before pushing it
  (\<^verbatim>\<open>initNode.id = 0\<close> for the first), so a node's \<^verbatim>\<open>id\<close> is its position in
  \<^verbatim>\<open>Map.nodes\<close>. A reference to a node (\<^verbatim>\<open>adj\<close>, \<^verbatim>\<open>assign\<close>, an army's \<^verbatim>\<open>from\<close>,
  \<^verbatim>\<open>to\<close>, \<^verbatim>\<open>finalDest\<close>) is modelled as that position, and \<^verbatim>\<open>node.id\<close> as the
  position itself. The fields \<^verbatim>\<open>x\<close> and \<^verbatim>\<open>y\<close> are called \<open>xpos\<close> and \<open>ypos\<close>.
  Positions are modelled as \<open>real\<close>. The type \<open>'n\<close> of a troop count is a parameter.
  Troop counts are JavaScript numbers that the engine only ever changes by integers, so
  \<open>'n\<close> is \<open>int\<close> wherever a game is played with integers, and these are the types
  \<open>MapNode\<close>, \<open>MapArmy\<close>, \<open>ArmyTick\<close> and \<open>Game\<close>. Where the value \<^verbatim>\<open>NaN\<close> of a
  JavaScript number matters, \<open>'n\<close> is the type \<open>number\<close> of the section on it.
\<close>

record 'n MapNodeOf =
  xpos :: real
  ypos :: real
  adj :: "nat list"
  team :: Team
  troops :: 'n
  type :: NodeType
  assign :: "nat option"
  wasAttacked :: bool

type_synonym MapNode = "int MapNodeOf"

text \<open>
  A \<^verbatim>\<open>MapArmy\<close> object; its fields carry the prefix \<open>a\<close> (\<^verbatim>\<open>from\<close> is \<open>afrom\<close>,
  \<^verbatim>\<open>troops\<close> is \<open>atroops\<close>, and so on).
\<close>

record 'n MapArmyOf =
  afrom :: nat
  ato :: nat
  atroops :: 'n
  ateam :: Team
  afinalDest :: nat
  aid :: int
  adistance :: int

type_synonym MapArmy = "int MapArmyOf"

text \<open>The JSON interface \<^verbatim>\<open>MapArmy.MapArmyJSON\<close>: six fields.\<close>

record MapArmyJSON =
  json_from :: nat
  json_to :: nat
  json_troops :: int
  json_distance :: int
  json_team :: Team
  json_id :: int

text \<open>
  A \<^verbatim>\<open>Game\<close>: the nodes of its map, the travelling armies, the tick and army counters.
  \<open>rng\<close> is the sequence of values that the coming calls of \<^verbatim>\<open>Math.random()\<close> return;
  a call reads \<open>rng 0\<close> and shifts the sequence.
\<close>

record 'n GameOf =
  nodes :: "'n MapNodeOf list"
  armies :: "'n MapArmyOf list"
  tickNumber :: int
  armyCounter :: int
  rng :: "nat \<Rightarrow> real"

type_synonym Game = "int GameOf"

section \<open>MapNode: geometry\<close>

definition distance :: "'n MapNodeOf \<Rightarrow> 'n MapNodeOf \<Rightarrow> real" where
  "distance p q =
     sqrt ((xpos p - xpos q) * (xpos p - xpos q) + (ypos p - ypos q) * (ypos p - ypos q))"

text \<open>\<^verbatim>\<open>Math.round\<close> rounds halves upwards, as \<^const>\<open>round\<close> does.\<close>

definition intDistance :: "'n MapNodeOf \<Rightarrow> 'n MapNodeOf \<Rightarrow> int" where
  "intDistance p q = round (distance p q)"

section \<open>MapArmy: combat\<close>

definition lossMeanRatio :: real where
  "lossMeanRatio = 1 / 80"

definition lossRadius :: real where
  "lossRadius = 1 / 10"

definition shift :: "nat \<Rightarrow> (nat \<Rightarrow> real) \<Rightarrow> (nat \<Rightarrow> real)" where
  "shift k r = (\<lambda>i. r (i + k))"

text \<open>
  \<^verbatim>\<open>MapArmy.battle\<close>. The unequal branches call \<^verbatim>\<open>Math.random()\<close> once, the equal
  branch twice, the guard not at all; the second component of the result is the random
  sequence that is left.
\<close>

definition battle ::
  "int \<Rightarrow> int \<Rightarrow> real \<Rightarrow> real \<Rightarrow> (nat \<Rightarrow> real) \<Rightarrow> (int \<times> int) \<times> (nat \<Rightarrow> real)" where
  "battle troopsA troopsB multA multB r =
     (if troopsA \<le> 0 \<or> troopsB \<le> 0 then ((max troopsA 0, max troopsB 0), r)
      else if troopsA < troopsB then
        (let lossesB = of_int troopsB * lossMeanRatio * (1 - lossRadius + r 0 * 2 * lossRadius);
             lossesA = lossesB * (of_int troopsB / of_int troopsA)
         in ((troopsA - \<lceil>lossesA * multA\<rceil>, troopsB - \<lceil>lossesB * multB\<rceil>), shift 1 r))
      else if troopsA > troopsB then
        (let lossesA = of_int troopsA * lossMeanRatio * (1 - lossRadius + r 0 * 2 * lossRadius);
             lossesB = lossesA * (of_int troopsA / of_int troopsB)
         in ((troopsA - \<lceil>lossesA * multA\<rceil>, troopsB - \<lceil>lossesB * multB\<rceil>), shift 1 r))
      else
        (let lossesA = of_int troopsA * lossMeanRatio * (1 - lossRadius + r 0 * 2 * lossRadius);
             lossesB = of_int troopsB * lossMeanRatio * (1 - lossRadius + r 1 * 2 * lossRadius)
         in ((troopsA - \<lceil>lossesA * multA\<rceil>, troopsB - \<lceil>lossesB * multB\<rceil>), shift 2 r)))"

text \<open>
  \<^verbatim>\<open>MapArmy.battleNode\<close>: the node is \<^verbatim>\<open>army.to\<close>; the result is the node and the
  army as the call leaves them. The multipliers are read before anything is written.
\<close>

definition battleNode ::
  "MapNode list \<Rightarrow> MapNode \<Rightarrow> MapArmy \<Rightarrow> (nat \<Rightarrow> real) \<Rightarrow> MapNode \<times> MapArmy \<times> (nat \<Rightarrow> real)" where
  "battleNode ns node army r =
     (let nodeMult0 = (if type node = Fort then 1 * (1 / 2) else 1);
          nodeMult = (if team (ns ! afrom army) = ateam army \<and> type (ns ! afrom army) = Artillery
                      then nodeMult0 * 2 else nodeMult0);
          armyMult = (if type node = Artillery then 2 else 1);
          res = battle (troops node) (atroops army) nodeMult armyMult r;
          newNodeTroops = fst (fst res);
          newArmyTroops = snd (fst res)
      in if newNodeTroops \<le> 0 then
           (let node1 = node\<lparr>type := Normal, assign := None\<rparr>;
                node2 = (if newArmyTroops > 0
                         then node1\<lparr>team := ateam army, troops := newArmyTroops\<rparr>
                         else if newArmyTroops \<le> 0
                         then node1\<lparr>team := Neutral, troops := 0\<rparr>
                         else node1)
            in (node2\<lparr>wasAttacked := True\<rparr>, army\<lparr>atroops := 0\<rparr>, snd res))
         else
           (node\<lparr>troops := newNodeTroops, wasAttacked := True\<rparr>,
            army\<lparr>atroops := newArmyTroops\<rparr>, snd res))"

text \<open>
  \<^verbatim>\<open>MapArmy.battleEdge\<close>: the two new troop counts; the caller writes them to
  \<^verbatim>\<open>army1.troops\<close> and then \<^verbatim>\<open>army2.troops\<close>.
\<close>

definition battleEdge ::
  "MapNode list \<Rightarrow> MapArmy \<Rightarrow> MapArmy \<Rightarrow> (nat \<Rightarrow> real) \<Rightarrow> (int \<times> int) \<times> (nat \<Rightarrow> real)" where
  "battleEdge ns army1 army2 r =
     (let army1Mult = (if team (ns ! afrom army2) = ateam army2 \<and> type (ns ! afrom army2) = Artillery
                       then 2 else 1);
          army2Mult = (if team (ns ! afrom army1) = ateam army1 \<and> type (ns ! afrom army1) = Artillery
                       then 2 else 1)
      in battle (atroops army1) (atroops army2) army1Mult army2Mult r)"

section \<open>MapArmy: one tick over the armies\<close>

definition sameDirection :: "'n MapArmyOf \<Rightarrow> 'n MapArmyOf \<Rightarrow> bool" where
  "sameDirection a b = (ato a = ato b \<and> afrom a = afrom b)"

definition oppositeDirection :: "'n MapArmyOf \<Rightarrow> 'n MapArmyOf \<Rightarrow> bool" where
  "oppositeDirection a b = (ato a = afrom b \<and> afrom a = ato b)"

definition areCollidingTail :: "'n MapArmyOf \<Rightarrow> 'n MapArmyOf \<Rightarrow> bool" where
  "areCollidingTail a b = (sameDirection a b \<and> adistance a = adistance b - 1)"

definition areCollidingHead ::
  "'n MapNodeOf list \<Rightarrow> 'n MapArmyOf \<Rightarrow> 'n MapArmyOf \<Rightarrow> bool" where
  "areCollidingHead ns a b =
     (oppositeDirection a b \<and>
      adistance a + adistance b = intDistance (ns ! ato a) (ns ! afrom a) - 1)"

text \<open>
  The state of the loop of \<^verbatim>\<open>MapArmy.tick\<close>: the nodes, the sorted array of army
  objects (an army is addressed by its position in it), \<^verbatim>\<open>armiesToSend\<close> and the
  random sequence.
\<close>

record 'n ArmyTickOf =
  t_nodes :: "'n MapNodeOf list"
  t_armies :: "'n MapArmyOf list"
  t_send :: "(nat \<times> nat \<times> 'n) list"
  t_rng :: "nat \<Rightarrow> real"

type_synonym ArmyTick = "int ArmyTickOf"

text \<open>The test of the inner loop that ends the scan at \<^verbatim>\<open>otherArmy\<close>.\<close>

definition collides :: "'n MapNodeOf list \<Rightarrow> 'n MapArmyOf \<Rightarrow> 'n MapArmyOf \<Rightarrow> bool" where
  "collides ns army otherArmy =
     (areCollidingTail army otherArmy \<or>
      (areCollidingHead ns army otherArmy \<and> ateam army \<noteq> ateam otherArmy))"

text \<open>The body of the outer loop for the army at position \<open>i\<close>.\<close>

definition armyStep :: "nat \<Rightarrow> ArmyTick \<Rightarrow> ArmyTick" where
  "armyStep i s =
     (let ns = t_nodes s; as = t_armies s; army = as ! i;
          d = intDistance (ns ! afrom army) (ns ! ato army)
      in if adistance army = d then
           (let node = ns ! ato army
            in if ateam army \<noteq> team node then
                 (let res = battleNode ns node army (t_rng s)
                  in s\<lparr>t_nodes := ns[ato army := fst res],
                       t_armies := as[i := fst (snd res)],
                       t_rng := snd (snd res)\<rparr>)
               else
                 s\<lparr>t_nodes := ns[ato army := node\<lparr>troops := troops node + atroops army\<rparr>],
                   t_send := (if afinalDest army \<noteq> ato army
                              then t_send s @ [(ato army, afinalDest army, atroops army)]
                              else t_send s),
                   t_armies := as[i := army\<lparr>atroops := 0\<rparr>]\<rparr>)
         else
           (case find (\<lambda>j. collides ns army (as ! j)) [0..<length as] of
              None \<Rightarrow> s\<lparr>t_armies := as[i := army\<lparr>adistance := adistance army + 1\<rparr>]\<rparr>
            | Some j \<Rightarrow>
                (let otherArmy = as ! j
                 in if areCollidingTail army otherArmy \<and> ateam army = ateam otherArmy
                       \<and> afinalDest army = afinalDest otherArmy
                    then
                      (let as1 = as[j := otherArmy\<lparr>atroops := atroops otherArmy + atroops army\<rparr>]
                       in s\<lparr>t_armies := as1[i := (as1 ! i)\<lparr>atroops := 0\<rparr>]\<rparr>)
                    else
                      (let res = battleEdge ns army otherArmy (t_rng s);
                           as1 = as[i := army\<lparr>atroops := fst (fst res)\<rparr>]
                       in s\<lparr>t_armies := as1[j := (as1 ! j)\<lparr>atroops := snd (fst res)\<rparr>],
                            t_rng := snd res\<rparr>))))"

text \<open>
  \<^verbatim>\<open>MapArmy.tick\<close>. \<^verbatim>\<open>Array.prototype.sort\<close> is stable, and the comparator
  \<^verbatim>\<open>b.distance - a.distance\<close> orders by falling distance.
\<close>

definition MapArmy_tick :: "MapNode list \<Rightarrow> MapArmy list \<Rightarrow> (nat \<Rightarrow> real) \<Rightarrow> ArmyTick" where
  "MapArmy_tick ns as r =
     (let sortedArmies = sort_key (\<lambda>a. - adistance a) as;
          s = fold armyStep [0..<length sortedArmies]
                \<lparr>t_nodes = ns, t_armies = sortedArmies, t_send = [], t_rng = r\<rparr>
      in s\<lparr>t_armies := filter (\<lambda>army. atroops army > 0) (t_armies s)\<rparr>)"

text \<open>\<^verbatim>\<open>MapArmy.toJSON\<close>; \<^verbatim>\<open>this.from.id\<close> is the position of the node.\<close>

definition toJSON :: "MapArmy \<Rightarrow> MapArmyJSON" where
  "toJSON army =
     \<lparr>json_from = afrom army, json_to = ato army, json_troops = atroops army,
      json_distance = adistance army, json_team = ateam army, json_id = aid army\<rparr>"

definition Game_toJSON_armies :: "Game \<Rightarrow> MapArmyJSON list" where
  "Game_toJSON_armies g = map toJSON (armies g)"

section \<open>MapNode: production\<close>

text \<open>The remainder operator \<^verbatim>\<open>%\<close> of JavaScript takes the sign of the dividend.\<close>

definition jsrem :: "int \<Rightarrow> int \<Rightarrow> int" where
  "jsrem a b = sgn a * (\<bar>a\<bar> mod \<bar>b\<bar>)"

text \<open>\<^verbatim>\<open>MapNode.tick\<close> for the node at position \<open>k\<close>: the node as the call leaves it.\<close>

definition MapNode_tick :: "MapNode list \<Rightarrow> nat \<Rightarrow> int \<Rightarrow> MapNode" where
  "MapNode_tick ns k tickNo =
     (let this = ns ! k
      in if jsrem tickNo 2 \<noteq> 0 \<or> wasAttacked this then this\<lparr>wasAttacked := False\<rparr>
         else
           (let mult = fold (\<lambda>adjNode m. if team (ns ! adjNode) = team this
                                              \<and> type (ns ! adjNode) = PowerPlant
                                           then m + 1 else m) (adj this) (1 :: int)
            in if type this = Factory then this\<lparr>troops := troops this + mult * 2\<rparr>
               else this\<lparr>troops := troops this + 1\<rparr>))"

section \<open>Game: the router\<close>

text \<open>
  The three tables of \<^verbatim>\<open>Game.dijkstra\<close>, keyed by node id: \<^verbatim>\<open>dist\<close> with \<open>None\<close> for
  \<^verbatim>\<open>Infinity\<close>, \<^verbatim>\<open>prev\<close> with \<open>None\<close> for \<open>-1\<close>, and \<^verbatim>\<open>done\<close> as the set of the ids
  marked \<^verbatim>\<open>true\<close>.
\<close>

definition distLess :: "real option \<Rightarrow> real option \<Rightarrow> bool" where
  "distLess a b =
     (case a of None \<Rightarrow> False | Some u \<Rightarrow> (case b of None \<Rightarrow> True | Some v \<Rightarrow> u < v))"

text \<open>The \<^verbatim>\<open>for\<close> loop that chooses \<^verbatim>\<open>nextNodeID\<close> among the first \<open>n\<close> nodes.\<close>

definition selectNext :: "nat \<Rightarrow> (nat \<Rightarrow> real option) \<Rightarrow> nat set \<Rightarrow> nat option" where
  "selectNext n distT doneT =
     fold (\<lambda>node nextNodeID.
             if node \<notin> doneT \<and>
                (case nextNodeID of None \<Rightarrow> True | Some m \<Rightarrow> distLess (distT node) (distT m))
             then Some node else nextNodeID)
          [0..<n] None"

text \<open>The body of the loop over \<^verbatim>\<open>nextNode.adj\<close>.\<close>

definition relax ::
  "'n MapNodeOf list \<Rightarrow> nat \<Rightarrow> nat \<Rightarrow> nat \<Rightarrow> nat set \<Rightarrow> nat \<Rightarrow>
   (nat \<Rightarrow> real option) \<times> (nat \<Rightarrow> nat option) \<Rightarrow> (nat \<Rightarrow> real option) \<times> (nat \<Rightarrow> nat option)" where
  "relax ns fromN toN nextNodeID doneT adjNode dp =
     (if adjNode \<notin> doneT \<and> (adjNode = toN \<or> team (ns ! adjNode) = team (ns ! fromN)) then
        (case fst dp nextNodeID of
           None \<Rightarrow> dp
         | Some d \<Rightarrow>
             (let distBtwn = distance (ns ! nextNodeID) (ns ! adjNode)
              in if distLess (Some (d + distBtwn)) (fst dp adjNode)
                 then ((fst dp)(adjNode := Some (d + distBtwn)),
                       (snd dp)(adjNode := Some nextNodeID))
                 else dp))
      else dp)"

text \<open>
  The \<^verbatim>\<open>while (true)\<close> loop: \<open>None\<close> where it returns \<^verbatim>\<open>undefined\<close>, the table
  \<^verbatim>\<open>prev\<close> where it leaves by \<^verbatim>\<open>break\<close>.
\<close>

function dijkstraLoop ::
  "'n MapNodeOf list \<Rightarrow> nat \<Rightarrow> nat \<Rightarrow> (nat \<Rightarrow> real option) \<Rightarrow> (nat \<Rightarrow> nat option) \<Rightarrow> nat set \<Rightarrow>
   (nat \<Rightarrow> nat option) option" where
  "dijkstraLoop ns fromN toN distT prevT doneT =
     (case selectNext (length ns) distT doneT of
        None \<Rightarrow> None
      | Some nextNodeID \<Rightarrow>
          if distT nextNodeID = None then None
          else if nextNodeID = toN then Some prevT
          else
            (let dp = fold (relax ns fromN toN nextNodeID (insert nextNodeID doneT))
                        (adj (ns ! nextNodeID)) (distT, prevT)
             in dijkstraLoop ns fromN toN (fst dp) (snd dp) (insert nextNodeID doneT)))"
  by pat_completeness auto
termination
proof (relation "measure (\<lambda>(ns, fromN, toN, distT, prevT, doneT). card ({..<length ns} - doneT))")
  show "wf (measure (\<lambda>(ns, fromN, toN, distT, prevT, doneT). card ({..<length ns} - doneT)))"
    by simp
next
  fix ns :: "'n MapNodeOf list" and fromN toN :: nat and distT :: "nat \<Rightarrow> real option"
    and prevT :: "nat \<Rightarrow> nat option" and doneT :: "nat set" and x2 xa
  assume sel: "selectNext (length ns) distT doneT = Some x2"
  have gen: "\<And>acc. fold (\<lambda>node nextNodeID.
             if node \<notin> doneT \<and>
                (case nextNodeID of None \<Rightarrow> True | Some m \<Rightarrow> distLess (distT node) (distT m))
             then Some node else nextNodeID) ks acc = Some v
        \<Longrightarrow> (acc = Some v) \<or> (v \<in> set ks \<and> v \<notin> doneT)" for ks v
  proof (induction ks)
    case Nil
    then show ?case by simp
  next
    case (Cons k ks)
    from Cons.IH[OF Cons.prems[simplified]] show ?case
      by (auto split: if_splits)
  qed
  from gen[of "[0..<length ns]" None x2] sel
  have "x2 < length ns" "x2 \<notin> doneT"
    by (auto simp: selectNext_def)
  then have "{..<length ns} - insert x2 doneT \<subset> {..<length ns} - doneT"
    by auto
  then have "card ({..<length ns} - insert x2 doneT) < card ({..<length ns} - doneT)"
    by (intro psubset_card_mono) auto
  then show "((ns, fromN, toN, fst xa, snd xa, insert x2 doneT), ns, fromN, toN, distT, prevT, doneT)
        \<in> measure (\<lambda>(ns, fromN, toN, distT, prevT, doneT). card ({..<length ns} - doneT))"
    by simp
qed

text \<open>
  The second loop walks \<^verbatim>\<open>prev\<close> back from \<^verbatim>\<open>to.id\<close>. Nothing in its text bounds it,
  so not returning is the value \<open>None\<close>; \<open>Some None\<close> is \<^verbatim>\<open>return undefined\<close>.
\<close>

partial_function (option) walkBack ::
  "(nat \<Rightarrow> nat option) \<Rightarrow> nat \<Rightarrow> nat \<Rightarrow> nat option option" where
  "walkBack prevT fromN targetID =
     (if prevT targetID = Some fromN then Some (Some targetID)
      else (case prevT targetID of
              None \<Rightarrow> Some None
            | Some t \<Rightarrow> walkBack prevT fromN t))"

text \<open>\<^verbatim>\<open>Game.dijkstra\<close>: the next node on the way from \<open>fromN\<close> to \<open>toN\<close>.\<close>

definition dijkstra :: "'n MapNodeOf list \<Rightarrow> nat \<Rightarrow> nat \<Rightarrow> nat option option" where
  "dijkstra ns fromN toN =
     (case dijkstraLoop ns fromN toN ((\<lambda>_. None)(fromN := Some 0)) (\<lambda>_. None) {} of
        None \<Rightarrow> Some None
      | Some prevT \<Rightarrow> walkBack prevT fromN toN)"

section \<open>Game: commands\<close>

text \<open>
  \<^verbatim>\<open>Game.getNodeByID\<close>: \<open>None\<close> is \<^verbatim>\<open>undefined\<close>; the node found is its position in
  \<^verbatim>\<open>Map.nodes\<close>.
\<close>

definition getNodeByID :: "Game \<Rightarrow> int \<Rightarrow> nat option" where
  "getNodeByID g nodeID =
     (if nodeID < 0 \<or> nodeID \<ge> int (length (nodes g)) then None else Some (nat nodeID))"

text \<open>\<^verbatim>\<open>Game.buildingCosts\<close>; \<open>None\<close> where \<^verbatim>\<open>type in Game.buildingCosts\<close> is false.\<close>

definition buildingCosts :: "NodeType \<Rightarrow> int option" where
  "buildingCosts t =
     (case t of Normal \<Rightarrow> None | Factory \<Rightarrow> Some 200 | PowerPlant \<Rightarrow> Some 1000
      | Fort \<Rightarrow> Some 500 | Artillery \<Rightarrow> Some 2000)"

text \<open>A command returns its boolean and the game as it leaves it.\<close>

definition build :: "Team \<Rightarrow> nat \<Rightarrow> NodeType \<Rightarrow> Game \<Rightarrow> bool \<times> Game" where
  "build tm node ty g =
     (if tm = Neutral \<or> buildingCosts ty = None then (False, g)
      else
        (case buildingCosts ty of
           None \<Rightarrow> (False, g)
         | Some cost \<Rightarrow>
             (let n = nodes g ! node
              in if team n = tm \<and> type n \<noteq> ty \<and> troops n \<ge> cost
                 then (True, g\<lparr>nodes := (nodes g)[node := n\<lparr>type := ty, troops := troops n - cost\<rparr>]\<rparr>)
                 else (False, g))))"

text \<open>
  \<^verbatim>\<open>Game.sendArmy\<close>. The router is the only part that loops without a bound in its
  text, so the result is an option: \<open>None\<close> is a call that does not return.
\<close>

definition sendArmy :: "Team \<Rightarrow> nat \<Rightarrow> nat \<Rightarrow> int \<Rightarrow> Game \<Rightarrow> (bool \<times> Game) option" where
  "sendArmy tm fromN toN trps g =
     (if team (nodes g ! fromN) \<noteq> tm \<or> tm = Neutral then Some (False, g)
      else if list_ex (\<lambda>army. afrom army = toN \<and> ato army = fromN \<and> ateam army \<noteq> tm
                         \<and> adistance army = intDistance (nodes g ! fromN) (nodes g ! toN))
                (armies g)
      then Some (False, g)
      else
        (let trps' = min trps (troops (nodes g ! fromN))
         in if trps' = 0 then Some (True, g)
            else
              (case dijkstra (nodes g) fromN toN of
                 None \<Rightarrow> None
               | Some None \<Rightarrow> Some (False, g)
               | Some (Some target) \<Rightarrow>
                   Some (True,
                     g\<lparr>nodes := (nodes g)[fromN :=
                          (nodes g ! fromN)\<lparr>troops := troops (nodes g ! fromN) - trps'\<rparr>],
                       armies := armies g @
                          [\<lparr>afrom = fromN, ato = target, atroops = trps',
                            ateam = team (nodes g ! fromN), afinalDest = toN,
                            aid = armyCounter g, adistance = 0\<rparr>],
                       armyCounter := armyCounter g + 1\<rparr>))))"

text \<open>
  \<^verbatim>\<open>Game.assign\<close>, called \<open>assign_cmd\<close> since \<open>assign\<close> is the field of a node. The
  router runs before anything is written, so the result is an option as for
  \<^verbatim>\<open>sendArmy\<close>.
\<close>

definition assign_cmd :: "Team \<Rightarrow> nat \<Rightarrow> nat \<Rightarrow> Game \<Rightarrow> (bool \<times> Game) option" where
  "assign_cmd tm fromN toN g =
     (if tm = Neutral \<or> team (nodes g ! fromN) \<noteq> tm then Some (False, g)
      else
        (case dijkstra (nodes g) fromN toN of
           None \<Rightarrow> None
         | Some target \<Rightarrow>
             Some (True,
               g\<lparr>nodes := (nodes g)[fromN :=
                    (nodes g ! fromN)\<lparr>assign := (if target = None then None else Some toN)\<rparr>]\<rparr>)))"

definition unassign :: "Team \<Rightarrow> nat \<Rightarrow> Game \<Rightarrow> bool \<times> Game" where
  "unassign tm fromN g =
     (if tm = Neutral \<or> team (nodes g ! fromN) \<noteq> tm then (False, g)
      else (True, g\<lparr>nodes := (nodes g)[fromN := (nodes g ! fromN)\<lparr>assign := None\<rparr>]\<rparr>))"

definition forfeit :: "Team \<Rightarrow> Game \<Rightarrow> bool \<times> Game" where
  "forfeit tm g =
     (if tm = Neutral then (False, g)
      else (True,
        g\<lparr>nodes := map (\<lambda>node. if team node = tm
                                then node\<lparr>team := Neutral, type := Normal, troops := 0\<rparr>
                                else node) (nodes g),
          armies := filter (\<lambda>army. ateam army \<noteq> tm) (armies g)\<rparr>))"

section \<open>Game: one tick\<close>

text \<open>A loop whose body may not return.\<close>

fun foldOpt :: "('a \<Rightarrow> 's \<Rightarrow> 's option) \<Rightarrow> 'a list \<Rightarrow> 's \<Rightarrow> 's option" where
  "foldOpt f [] s = Some s"
| "foldOpt f (x # xs) s = (case f x s of None \<Rightarrow> None | Some s' \<Rightarrow> foldOpt f xs s')"

text \<open>The body of the loop over \<^verbatim>\<open>this.map.nodes\<close> for the node at position \<open>k\<close>.\<close>

definition nodeStep :: "nat \<Rightarrow> Game \<Rightarrow> Game option" where
  "nodeStep k g =
     (let g1 = g\<lparr>nodes := (nodes g)[k := MapNode_tick (nodes g) k (tickNumber g)]\<rparr>;
          node = nodes g1 ! k
      in case assign node of
           None \<Rightarrow> Some g1
         | Some target \<Rightarrow>
             if jsrem (tickNumber g1) 8 = 0 then
               (case sendArmy (team node) k target (troops node) g1 of
                  None \<Rightarrow> None
                | Some res \<Rightarrow>
                    if \<not> fst res
                    then Some ((snd res)\<lparr>nodes := (nodes (snd res))[k :=
                                 (nodes (snd res) ! k)\<lparr>assign := None\<rparr>]\<rparr>)
                    else Some (snd res))
             else Some g1)"

text \<open>The callback of \<^verbatim>\<open>armiesToSend.forEach\<close>; the boolean is dropped.\<close>

definition sendStep :: "nat \<times> nat \<times> int \<Rightarrow> Game \<Rightarrow> Game option" where
  "sendStep e g =
     map_option snd (sendArmy (team (nodes g ! fst e)) (fst e) (fst (snd e)) (snd (snd e)) g)"

definition Game_tick :: "Game \<Rightarrow> Game option" where
  "Game_tick g =
     (let g1 = g\<lparr>tickNumber := tickNumber g + 1\<rparr>;
          s = MapArmy_tick (nodes g1) (armies g1) (rng g1);
          g2 = g1\<lparr>nodes := t_nodes s, armies := t_armies s, rng := t_rng s\<rparr>
      in case foldOpt nodeStep [0..<length (nodes g2)] g2 of
           None \<Rightarrow> None
         | Some g3 \<Rightarrow> foldOpt sendStep (t_send s) g3)"

section \<open>The engine over JavaScript numbers\<close>

text \<open>
  \<^verbatim>\<open>Room\<close> hands the third argument of a client's \<^verbatim>\<open>sendArmy\<close> message to
  \<^verbatim>\<open>Game.sendArmy\<close> as it arrives, and no method checks it. If it is missing or not
  numeric, \<^verbatim>\<open>Math.min(troops, from.troops)\<close> is \<^verbatim>\<open>NaN\<close>, and from there on the call
  goes as it does for an argument \<^verbatim>\<open>NaN\<close>: a troop count can be the number
  \<^verbatim>\<open>NaN\<close>. The type \<open>number\<close> adds \<^verbatim>\<open>NaN\<close> to the real numbers,
  with the arithmetic and the comparisons of JavaScript: an operation with \<^verbatim>\<open>NaN\<close>
  gives \<^verbatim>\<open>NaN\<close>, and every comparison with \<^verbatim>\<open>NaN\<close> is false. The infinities are
  not in the type: the engine gets none from finite counts, and a division by zero,
  which is where JavaScript would give one, is \<^verbatim>\<open>NaN\<close> here. Rounding is left out as
  before.

  The methods that compute with troop counts follow once more, now over \<open>number\<close>
  and with the suffix \<open>_num\<close>; the geometry, the collision tests and the router do not
  read a troop count and are the ones above.
\<close>

datatype number = NaN | Num real

instantiation number :: "{plus, minus, times, inverse, ord}"
begin

definition plus_number :: "number \<Rightarrow> number \<Rightarrow> number" where
  "a + b = (case a of NaN \<Rightarrow> NaN | Num x \<Rightarrow> (case b of NaN \<Rightarrow> NaN | Num y \<Rightarrow> Num (x + y)))"

definition minus_number :: "number \<Rightarrow> number \<Rightarrow> number" where
  "a - b = (case a of NaN \<Rightarrow> NaN | Num x \<Rightarrow> (case b of NaN \<Rightarrow> NaN | Num y \<Rightarrow> Num (x - y)))"

definition times_number :: "number \<Rightarrow> number \<Rightarrow> number" where
  "a * b = (case a of NaN \<Rightarrow> NaN | Num x \<Rightarrow> (case b of NaN \<Rightarrow> NaN | Num y \<Rightarrow> Num (x * y)))"

definition divide_number :: "number \<Rightarrow> number \<Rightarrow> number" where
  "divide_number a b = (case a of NaN \<Rightarrow> NaN
     | Num x \<Rightarrow> (case b of NaN \<Rightarrow> NaN | Num y \<Rightarrow> if y = 0 then NaN else Num (x / y)))"

definition inverse_number :: "number \<Rightarrow> number" where
  "inverse_number a = (case a of NaN \<Rightarrow> NaN | Num y \<Rightarrow> if y = 0 then NaN else Num (1 / y))"

definition less_eq_number :: "number \<Rightarrow> number \<Rightarrow> bool" where
  "a \<le> b = (case a of NaN \<Rightarrow> False | Num x \<Rightarrow> (case b of NaN \<Rightarrow> False | Num y \<Rightarrow> x \<le> y))"

definition less_number :: "number \<Rightarrow> number \<Rightarrow> bool" where
  "a < b = (case a of NaN \<Rightarrow> False | Num x \<Rightarrow> (case b of NaN \<Rightarrow> False | Num y \<Rightarrow> x < y))"

instance ..

end

text \<open>
  \<^verbatim>\<open>Math.min\<close>, \<^verbatim>\<open>Math.max\<close> and \<^verbatim>\<open>Math.ceil\<close>: \<^verbatim>\<open>NaN\<close> as soon as an argument is
  \<^verbatim>\<open>NaN\<close>.
\<close>

definition Math_min :: "number \<Rightarrow> number \<Rightarrow> number" where
  "Math_min a b =
     (case a of NaN \<Rightarrow> NaN | Num x \<Rightarrow> (case b of NaN \<Rightarrow> NaN | Num y \<Rightarrow> Num (min x y)))"

definition Math_max :: "number \<Rightarrow> number \<Rightarrow> number" where
  "Math_max a b =
     (case a of NaN \<Rightarrow> NaN | Num x \<Rightarrow> (case b of NaN \<Rightarrow> NaN | Num y \<Rightarrow> Num (max x y)))"

definition Math_ceil :: "number \<Rightarrow> number" where
  "Math_ceil a = (case a of NaN \<Rightarrow> NaN | Num x \<Rightarrow> Num (of_int \<lceil>x\<rceil>))"

text \<open>
  \<^verbatim>\<open>MapArmy.battle\<close> over \<open>number\<close>. With a \<^verbatim>\<open>NaN\<close> among the two counts every test
  is false, so the last branch is the one taken; both divisions are by a count that
  the guard has found positive.
\<close>

definition battle_num ::
  "number \<Rightarrow> number \<Rightarrow> real \<Rightarrow> real \<Rightarrow> (nat \<Rightarrow> real) \<Rightarrow> (number \<times> number) \<times> (nat \<Rightarrow> real)" where
  "battle_num troopsA troopsB multA multB r =
     (if troopsA \<le> Num 0 \<or> troopsB \<le> Num 0
      then ((Math_max troopsA (Num 0), Math_max troopsB (Num 0)), r)
      else if troopsA < troopsB then
        (let lossesB = troopsB * Num lossMeanRatio * Num (1 - lossRadius + r 0 * 2 * lossRadius);
             lossesA = lossesB * (troopsB / troopsA)
         in ((troopsA - Math_ceil (lossesA * Num multA),
              troopsB - Math_ceil (lossesB * Num multB)), shift 1 r))
      else if troopsA > troopsB then
        (let lossesA = troopsA * Num lossMeanRatio * Num (1 - lossRadius + r 0 * 2 * lossRadius);
             lossesB = lossesA * (troopsA / troopsB)
         in ((troopsA - Math_ceil (lossesA * Num multA),
              troopsB - Math_ceil (lossesB * Num multB)), shift 1 r))
      else
        (let lossesA = troopsA * Num lossMeanRatio * Num (1 - lossRadius + r 0 * 2 * lossRadius);
             lossesB = troopsB * Num lossMeanRatio * Num (1 - lossRadius + r 1 * 2 * lossRadius)
         in ((troopsA - Math_ceil (lossesA * Num multA),
              troopsB - Math_ceil (lossesB * Num multB)), shift 2 r)))"

text \<open>
  \<^verbatim>\<open>MapArmy.battleNode\<close> and \<^verbatim>\<open>MapArmy.battleEdge\<close> over \<open>number\<close>. In \<^verbatim>\<open>battleNode\<close>
  the tests \<^verbatim>\<open>newArmyTroops > 0\<close> and \<^verbatim>\<open>newArmyTroops <= 0\<close> are both false of
  \<^verbatim>\<open>NaN\<close>: then neither assignment to the team and the troops of the node runs.
\<close>

definition battleNode_num ::
  "number MapNodeOf list \<Rightarrow> number MapNodeOf \<Rightarrow> number MapArmyOf \<Rightarrow> (nat \<Rightarrow> real) \<Rightarrow>
   number MapNodeOf \<times> number MapArmyOf \<times> (nat \<Rightarrow> real)" where
  "battleNode_num ns node army r =
     (let nodeMult0 = (if type node = Fort then 1 * (1 / 2) else 1);
          nodeMult = (if team (ns ! afrom army) = ateam army \<and> type (ns ! afrom army) = Artillery
                      then nodeMult0 * 2 else nodeMult0);
          armyMult = (if type node = Artillery then 2 else 1);
          res = battle_num (troops node) (atroops army) nodeMult armyMult r;
          newNodeTroops = fst (fst res);
          newArmyTroops = snd (fst res)
      in if newNodeTroops \<le> Num 0 then
           (let node1 = node\<lparr>type := Normal, assign := None\<rparr>;
                node2 = (if newArmyTroops > Num 0
                         then node1\<lparr>team := ateam army, troops := newArmyTroops\<rparr>
                         else if newArmyTroops \<le> Num 0
                         then node1\<lparr>team := Neutral, troops := Num 0\<rparr>
                         else node1)
            in (node2\<lparr>wasAttacked := True\<rparr>, army\<lparr>atroops := Num 0\<rparr>, snd res))
         else
           (node\<lparr>troops := newNodeTroops, wasAttacked := True\<rparr>,
            army\<lparr>atroops := newArmyTroops\<rparr>, snd res))"

definition battleEdge_num ::
  "number MapNodeOf list \<Rightarrow> number MapArmyOf \<Rightarrow> number MapArmyOf \<Rightarrow> (nat \<Rightarrow> real) \<Rightarrow>
   (number \<times> number) \<times> (nat \<Rightarrow> real)" where
  "battleEdge_num ns army1 army2 r =
     (let army1Mult = (if team (ns ! afrom army2) = ateam army2 \<and> type (ns ! afrom army2) = Artillery
                       then 2 else 1);
          army2Mult = (if team (ns ! afrom army1) = ateam army1 \<and> type (ns ! afrom army1) = Artillery
                       then 2 else 1)
      in battle_num (atroops army1) (atroops army2) army1Mult army2Mult r)"

text \<open>
  The body of the outer loop of \<^verbatim>\<open>MapArmy.tick\<close> and the method itself over
  \<open>number\<close>; the progress of an army stays an integer.
\<close>

definition armyStep_num :: "nat \<Rightarrow> number ArmyTickOf \<Rightarrow> number ArmyTickOf" where
  "armyStep_num i s =
     (let ns = t_nodes s; as = t_armies s; army = as ! i;
          d = intDistance (ns ! afrom army) (ns ! ato army)
      in if adistance army = d then
           (let node = ns ! ato army
            in if ateam army \<noteq> team node then
                 (let res = battleNode_num ns node army (t_rng s)
                  in s\<lparr>t_nodes := ns[ato army := fst res],
                       t_armies := as[i := fst (snd res)],
                       t_rng := snd (snd res)\<rparr>)
               else
                 s\<lparr>t_nodes := ns[ato army := node\<lparr>troops := troops node + atroops army\<rparr>],
                   t_send := (if afinalDest army \<noteq> ato army
                              then t_send s @ [(ato army, afinalDest army, atroops army)]
                              else t_send s),
                   t_armies := as[i := army\<lparr>atroops := Num 0\<rparr>]\<rparr>)
         else
           (case find (\<lambda>j. collides ns army (as ! j)) [0..<length as] of
              None \<Rightarrow> s\<lparr>t_armies := as[i := army\<lparr>adistance := adistance army + 1\<rparr>]\<rparr>
            | Some j \<Rightarrow>
                (let otherArmy = as ! j
                 in if areCollidingTail army otherArmy \<and> ateam army = ateam otherArmy
                       \<and> afinalDest army = afinalDest otherArmy
                    then
                      (let as1 = as[j := otherArmy\<lparr>atroops := atroops otherArmy + atroops army\<rparr>]
                       in s\<lparr>t_armies := as1[i := (as1 ! i)\<lparr>atroops := Num 0\<rparr>]\<rparr>)
                    else
                      (let res = battleEdge_num ns army otherArmy (t_rng s);
                           as1 = as[i := army\<lparr>atroops := fst (fst res)\<rparr>]
                       in s\<lparr>t_armies := as1[j := (as1 ! j)\<lparr>atroops := snd (fst res)\<rparr>],
                            t_rng := snd res\<rparr>))))"

definition MapArmy_tick_num ::
  "number MapNodeOf list \<Rightarrow> number MapArmyOf list \<Rightarrow> (nat \<Rightarrow> real) \<Rightarrow> number ArmyTickOf" where
  "MapArmy_tick_num ns as r =
     (let sortedArmies = sort_key (\<lambda>a. - adistance a) as;
          s = fold armyStep_num [0..<length sortedArmies]
                \<lparr>t_nodes = ns, t_armies = sortedArmies, t_send = [], t_rng = r\<rparr>
      in s\<lparr>t_armies := filter (\<lambda>army. atroops army > Num 0) (t_armies s)\<rparr>)"

text \<open>
  \<^verbatim>\<open>MapNode.tick\<close> over \<open>number\<close>.
\<close>

definition MapNode_tick_num :: "number MapNodeOf list \<Rightarrow> nat \<Rightarrow> int \<Rightarrow> number MapNodeOf" where
  "MapNode_tick_num ns k tickNo =
     (let this = ns ! k
      in if jsrem tickNo 2 \<noteq> 0 \<or> wasAttacked this then this\<lparr>wasAttacked := False\<rparr>
         else
           (let mult = fold (\<lambda>adjNode m. if team (ns ! adjNode) = team this
                                              \<and> type (ns ! adjNode) = PowerPlant
                                           then m + 1 else m) (adj this) (1 :: int)
            in if type this = Factory then this\<lparr>troops := troops this + Num (of_int (mult * 2))\<rparr>
               else this\<lparr>troops := troops this + Num 1\<rparr>))"

text \<open>
  \<^verbatim>\<open>Game.sendArmy\<close> over \<open>number\<close>: \<^verbatim>\<open>troops === 0\<close> is false of \<^verbatim>\<open>NaN\<close>.
\<close>

definition sendArmy_num ::
  "Team \<Rightarrow> nat \<Rightarrow> nat \<Rightarrow> number \<Rightarrow> number GameOf \<Rightarrow> (bool \<times> number GameOf) option" where
  "sendArmy_num tm fromN toN trps g =
     (if team (nodes g ! fromN) \<noteq> tm \<or> tm = Neutral then Some (False, g)
      else if list_ex (\<lambda>army. afrom army = toN \<and> ato army = fromN \<and> ateam army \<noteq> tm
                         \<and> adistance army = intDistance (nodes g ! fromN) (nodes g ! toN))
                (armies g)
      then Some (False, g)
      else
        (let trps' = Math_min trps (troops (nodes g ! fromN))
         in if trps' = Num 0 then Some (True, g)
            else
              (case dijkstra (nodes g) fromN toN of
                 None \<Rightarrow> None
               | Some None \<Rightarrow> Some (False, g)
               | Some (Some target) \<Rightarrow>
                   Some (True,
                     g\<lparr>nodes := (nodes g)[fromN :=
                          (nodes g ! fromN)\<lparr>troops := troops (nodes g ! fromN) - trps'\<rparr>],
                       armies := armies g @
                          [\<lparr>afrom = fromN, ato = target, atroops = trps',
                            ateam = team (nodes g ! fromN), afinalDest = toN,
                            aid = armyCounter g, adistance = 0\<rparr>],
                       armyCounter := armyCounter g + 1\<rparr>))))"

text \<open>
  The two loop bodies of \<^verbatim>\<open>Game.tick\<close> and the method itself over \<open>number\<close>.
\<close>

definition nodeStep_num :: "nat \<Rightarrow> number GameOf \<Rightarrow> number GameOf option" where
  "nodeStep_num k g =
     (let g1 = g\<lparr>nodes := (nodes g)[k := MapNode_tick_num (nodes g) k (tickNumber g)]\<rparr>;
          node = nodes g1 ! k
      in case assign node of
           None \<Rightarrow> Some g1
         | Some target \<Rightarrow>
             if jsrem (tickNumber g1) 8 = 0 then
               (case sendArmy_num (team node) k target (troops node) g1 of
                  None \<Rightarrow> None
                | Some res \<Rightarrow>
                    if \<not> fst res
                    then Some ((snd res)\<lparr>nodes := (nodes (snd res))[k :=
                                 (nodes (snd res) ! k)\<lparr>assign := None\<rparr>]\<rparr>)
                    else Some (snd res))
             else Some g1)"

definition sendStep_num :: "nat \<times> nat \<times> number \<Rightarrow> number GameOf \<Rightarrow> number GameOf option" where
  "sendStep_num e g =
     map_option snd
       (sendArmy_num (team (nodes g ! fst e)) (fst e) (fst (snd e)) (snd (snd e)) g)"

definition Game_tick_num :: "number GameOf \<Rightarrow> number GameOf option" where
  "Game_tick_num g =
     (let g1 = g\<lparr>tickNumber := tickNumber g + 1\<rparr>;
          s = MapArmy_tick_num (nodes g1) (armies g1) (rng g1);
          g2 = g1\<lparr>nodes := t_nodes s, armies := t_armies s, rng := t_rng s\<rparr>
      in case foldOpt nodeStep_num [0..<length (nodes g2)] g2 of
           None \<Rightarrow> None
         | Some g3 \<Rightarrow> foldOpt sendStep_num (t_send s) g3)"

section \<open>Notions used to state and prove the properties of the router\<close>

text \<open>
  The test of the relaxation loop on an adjacent node: it is the destination or it has
  the team of \<open>fromN\<close>.
\<close>

definition inSub :: "'n MapNodeOf list \<Rightarrow> nat \<Rightarrow> nat \<Rightarrow> nat \<Rightarrow> bool" where
  "inSub ns fromN toN v = (v = toN \<or> team (ns ! v) = team (ns ! fromN))"

text \<open>
  The nodes whose distance the loop over \<open>as\<close>, the adjacency of \<open>x\<close>, lowers, when
  \<open>x\<close> has the distance \<open>dx\<close> and \<open>D\<close> is the set of finished nodes.
\<close>

definition improves ::
  "'n MapNodeOf list \<Rightarrow> nat \<Rightarrow> nat \<Rightarrow> nat \<Rightarrow> real \<Rightarrow> nat set \<Rightarrow> nat list \<Rightarrow> (nat \<Rightarrow> real option)
   \<Rightarrow> nat \<Rightarrow> bool" where
  "improves ns fromN toN x dx D as distT v =
     (v \<in> set as \<and> v \<notin> D \<and> inSub ns fromN toN v
      \<and> distLess (Some (dx + distance (ns ! x) (ns ! v))) (distT v))"

text \<open>
  \<open>chain \<dots> v p d\<close>: the list \<open>p\<close> leads from \<open>fromN\<close> to \<open>v\<close> along the entries of
  \<^verbatim>\<open>prev\<close>, through finished nodes, and has the length \<open>d\<close>.
\<close>

inductive chain ::
  "'n MapNodeOf list \<Rightarrow> nat \<Rightarrow> nat \<Rightarrow> (nat \<Rightarrow> nat option) \<Rightarrow> nat set \<Rightarrow> nat \<Rightarrow> nat list \<Rightarrow> real \<Rightarrow> bool"
  for ns fromN toN prevT D where
  chain_base: "chain ns fromN toN prevT D fromN [fromN] 0"
| chain_step: "chain ns fromN toN prevT D u p d \<Longrightarrow> u \<in> D \<Longrightarrow> prevT v = Some u
     \<Longrightarrow> v \<in> set (adj (ns ! u)) \<Longrightarrow> inSub ns fromN toN v
     \<Longrightarrow> chain ns fromN toN prevT D v (p @ [v]) (d + distance (ns ! u) (ns ! v))"

text \<open>The part of the loop invariant that makes the walk back along \<^verbatim>\<open>prev\<close> end.\<close>

definition invA ::
  "'n MapNodeOf list \<Rightarrow> nat \<Rightarrow> nat \<Rightarrow> (nat \<Rightarrow> real option) \<Rightarrow> (nat \<Rightarrow> nat option) \<Rightarrow> nat set \<Rightarrow> bool" where
  "invA ns fromN toN distT prevT D =
     (distT fromN = Some 0 \<and> prevT fromN = None
      \<and> (fromN \<in> D \<or> (\<forall>v. v \<noteq> fromN \<longrightarrow> distT v = None))
      \<and> (\<forall>v d. distT v = Some d \<longrightarrow> (\<exists>p. chain ns fromN toN prevT D v p d)))"

text \<open>
  The paths of C4. \<open>pathOk\<close>: every step of the list follows an adjacency, and every
  node after the first is the destination or a node of the team of \<open>fromN\<close>.
  \<open>pathLen\<close>: the sum of the Euclidean lengths of the steps. A \<open>route\<close> is such a path
  from \<open>fromN\<close> to \<open>toN\<close> with at least one step.
\<close>

fun pathOk :: "'n MapNodeOf list \<Rightarrow> nat \<Rightarrow> nat \<Rightarrow> nat list \<Rightarrow> bool" where
  "pathOk ns fromN toN (u # v # p) =
     (v \<in> set (adj (ns ! u)) \<and> inSub ns fromN toN v \<and> pathOk ns fromN toN (v # p))"
| "pathOk ns fromN toN p = True"

fun pathLen :: "'n MapNodeOf list \<Rightarrow> nat list \<Rightarrow> real" where
  "pathLen ns (u # v # p) = distance (ns ! u) (ns ! v) + pathLen ns (v # p)"
| "pathLen ns p = 0"

definition route :: "'n MapNodeOf list \<Rightarrow> nat \<Rightarrow> nat \<Rightarrow> nat list \<Rightarrow> bool" where
  "route ns fromN toN p =
     (2 \<le> length p \<and> hd p = fromN \<and> last p = toN \<and> pathOk ns fromN toN p)"

text \<open>
  The loop invariant of the router: the finished nodes are nodes of the map and not the
  destination, only nodes of the map have a distance, every finished node has one, the
  distances obey the triangle inequality along every usable edge out of a finished
  node, and no finished node is farther than an unfinished one.
\<close>

definition invB ::
  "'n MapNodeOf list \<Rightarrow> nat \<Rightarrow> nat \<Rightarrow> (nat \<Rightarrow> real option) \<Rightarrow> (nat \<Rightarrow> nat option) \<Rightarrow> nat set \<Rightarrow> bool" where
  "invB ns fromN toN distT prevT D =
     (invA ns fromN toN distT prevT D
      \<and> D \<subseteq> {..<length ns} \<and> toN \<notin> D
      \<and> (\<forall>v d. distT v = Some d \<longrightarrow> v < length ns)
      \<and> (\<forall>u\<in>D. \<exists>du. distT u = Some du)
      \<and> (\<forall>u\<in>D. \<forall>v\<in>set (adj (ns ! u)). inSub ns fromN toN v \<longrightarrow>
            (\<exists>du dv. distT u = Some du \<and> distT v = Some dv
                       \<and> dv \<le> du + distance (ns ! u) (ns ! v)))
      \<and> (\<forall>u\<in>D. \<forall>v du dv. v \<notin> D \<longrightarrow> distT u = Some du \<longrightarrow> distT v = Some dv \<longrightarrow> du \<le> dv))"

section \<open>Notions used to state and prove what a tick keeps\<close>

text \<open>
  \<open>nodesOk ns0 ns\<close>: the nodes \<open>ns\<close> stand where the nodes \<open>ns0\<close> stand, and none has
  a negative troop count.
\<close>

definition nodesOk :: "MapNode list \<Rightarrow> MapNode list \<Rightarrow> bool" where
  "nodesOk ns0 ns =
     (map xpos ns = map xpos ns0 \<and> map ypos ns = map ypos ns0
      \<and> (\<forall>k<length ns. 0 \<le> troops (ns ! k)))"

text \<open>An army that has reached the end of its edge: the test of \<^verbatim>\<open>MapArmy.tick\<close>.\<close>

definition arrived :: "MapNode list \<Rightarrow> MapArmy \<Rightarrow> bool" where
  "arrived ns a = (adistance a = intDistance (ns ! afrom a) (ns ! ato a))"

text \<open>
  What holds of the sorted array while the loop of \<^verbatim>\<open>MapArmy.tick\<close> is at position
  \<open>i\<close>: the armies travel between nodes of the map with a progress that is not
  negative; from \<open>i\<close> on the progress falls along the array; and an army from \<open>i\<close> on
  that has arrived has no negative troop count.
\<close>

definition armiesOk :: "MapNode list \<Rightarrow> nat \<Rightarrow> MapArmy list \<Rightarrow> bool" where
  "armiesOk ns0 i as =
     ((\<forall>j<length as. afrom (as ! j) < length ns0 \<and> ato (as ! j) < length ns0
                       \<and> 0 \<le> adistance (as ! j))
      \<and> (\<forall>j k. i \<le> j \<and> j < k \<and> k < length as \<longrightarrow> adistance (as ! k) \<le> adistance (as ! j))
      \<and> (\<forall>j. i \<le> j \<and> j < length as \<and> arrived ns0 (as ! j) \<longrightarrow> 0 \<le> atroops (as ! j)))"

definition sendOk :: "MapNode list \<Rightarrow> (nat \<times> nat \<times> int) list \<Rightarrow> bool" where
  "sendOk ns0 es = (\<forall>e\<in>set es. fst e < length ns0 \<and> 0 \<le> snd (snd e))"

definition tickInv :: "MapNode list \<Rightarrow> nat \<Rightarrow> nat \<Rightarrow> ArmyTick \<Rightarrow> bool" where
  "tickInv ns0 n i s =
     (nodesOk ns0 (t_nodes s) \<and> length (t_armies s) = n \<and> armiesOk ns0 i (t_armies s)
      \<and> sendOk ns0 (t_send s))"

text \<open>What C3 says of the game when a tick completes.\<close>

definition gameOk :: "Game \<Rightarrow> bool" where
  "gameOk g = ((\<forall>k<length (nodes g). 0 \<le> troops (nodes g ! k))
               \<and> (\<forall>a\<in>set (armies g). 0 < atroops a))"

text \<open>
  The games the program reaches. \<open>mapOk\<close>: the adjacency lists name nodes of the map,
  and the rounded length of every edge is at least 1 (the generator keeps every edge
  between 8 and 12 long). \<open>sameMap\<close>: two node lists agree on positions and adjacency.
  \<open>armyOk\<close>: an army travels between nodes of the map, its progress is not negative, and
  it has no negative troop count once it has arrived. \<open>stateOk\<close> puts these together
  with node troop counts that are not negative.
\<close>

definition mapOk :: "MapNode list \<Rightarrow> bool" where
  "mapOk ns =
     (\<forall>u<length ns. \<forall>v\<in>set (adj (ns ! u)). v < length ns \<and> 1 \<le> intDistance (ns ! u) (ns ! v))"

definition sameMap :: "MapNode list \<Rightarrow> MapNode list \<Rightarrow> bool" where
  "sameMap ns0 ns =
     (map xpos ns = map xpos ns0 \<and> map ypos ns = map ypos ns0 \<and> map adj ns = map adj ns0)"

definition armyOk :: "MapNode list \<Rightarrow> MapArmy \<Rightarrow> bool" where
  "armyOk ns a =
     (afrom a < length ns \<and> ato a < length ns \<and> 0 \<le> adistance a
      \<and> (arrived ns a \<longrightarrow> 0 \<le> atroops a))"

definition stateOk :: "Game \<Rightarrow> bool" where
  "stateOk g =
     (mapOk (nodes g) \<and> (\<forall>node\<in>set (nodes g). 0 \<le> troops node)
      \<and> (\<forall>army\<in>set (armies g). armyOk (nodes g) army))"

section \<open>States used as concrete inputs\<close>

text \<open>
  A node as \<^verbatim>\<open>new MapNode(x, y)\<close> leaves it, with the fields that the map generator
  and the game set afterwards.
\<close>

definition mkNode ::
  "real \<Rightarrow> real \<Rightarrow> nat list \<Rightarrow> Team \<Rightarrow> 'n \<Rightarrow> NodeType \<Rightarrow> 'n MapNodeOf" where
  "mkNode px py ad tm trps ty =
     \<lparr>xpos = px, ypos = py, adj = ad, team = tm, troops = trps, type = ty,
      assign = None, wasAttacked = False\<rparr>"

text \<open>Three nodes on a line, eight apart: two of Red, one neutral.\<close>

definition lineMap :: "MapNode list" where
  "lineMap = [mkNode 0 0 [1] Red 50 Normal, mkNode 8 0 [0, 2] Red 10 PowerPlant,
              mkNode 16 0 [1] Neutral 200 Normal]"

definition lineGame :: Game where
  "lineGame = \<lparr>nodes = lineMap, armies = [], tickNumber = 0, armyCounter = 0, rng = (\<lambda>_. 1 / 2)\<rparr>"

text \<open>Two armies that differ in their final destination only.\<close>

definition twoArmies :: "MapArmy \<times> MapArmy" where
  "twoArmies =
     (\<lparr>afrom = 0, ato = 1, atroops = 5, ateam = Red, afinalDest = 1, aid = 0, adistance = 0\<rparr>,
      \<lparr>afrom = 0, ato = 1, atroops = 5, ateam = Red, afinalDest = 2, aid = 0, adistance = 0\<rparr>)"

text \<open>The same line with a Blue node between the two Red ones.\<close>

definition blockedMap :: "MapNode list" where
  "blockedMap = [mkNode 0 0 [1] Red 50 Normal, mkNode 8 0 [0, 2] Blue 10 Normal,
                 mkNode 16 0 [1] Red 0 Normal]"

text \<open>A game on it in which node 0 has a standing order.\<close>

definition orderedGame :: Game where
  "orderedGame = lineGame\<lparr>nodes := blockedMap[0 := (blockedMap ! 0)\<lparr>assign := Some 1\<rparr>]\<rparr>"

text \<open>
  A game at tick 7 with a standing order on node 0, an army of 300 that has reached the
  neutral node 2 and an army of 20 that has reached node 1 on its way to node 2.
\<close>

definition battleGame :: Game where
  "battleGame =
     \<lparr>nodes = lineMap[0 := (lineMap ! 0)\<lparr>assign := Some 1\<rparr>],
      armies = [\<lparr>afrom = 1, ato = 2, atroops = 300, ateam = Red, afinalDest = 2, aid = 0,
                 adistance = 8\<rparr>,
                \<lparr>afrom = 0, ato = 1, atroops = 20, ateam = Red, afinalDest = 2, aid = 1,
                 adistance = 8\<rparr>],
      tickNumber = 7, armyCounter = 2, rng = (\<lambda>_. 1 / 2)\<rparr>"

text \<open>
  The line of three nodes over \<open>number\<close>; \<open>battleGame\<close> over \<open>number\<close>; a game at
  tick 7 in which node 0 has a standing order for node 1; and that game as
  \<^verbatim>\<open>sendArmy\<close> leaves it when \<^verbatim>\<open>troops\<close> is \<^verbatim>\<open>NaN\<close>.
\<close>

definition lineMap_num :: "number MapNodeOf list" where
  "lineMap_num = [mkNode 0 0 [1] Red (Num 50) Normal, mkNode 8 0 [0, 2] Red (Num 10) PowerPlant,
                  mkNode 16 0 [1] Neutral (Num 200) Normal]"

definition battleGame_num :: "number GameOf" where
  "battleGame_num =
     \<lparr>nodes = lineMap_num[0 := (lineMap_num ! 0)\<lparr>assign := Some 1\<rparr>],
      armies = [\<lparr>afrom = 1, ato = 2, atroops = Num 300, ateam = Red, afinalDest = 2, aid = 0,
                 adistance = 8\<rparr>,
                \<lparr>afrom = 0, ato = 1, atroops = Num 20, ateam = Red, afinalDest = 2, aid = 1,
                 adistance = 8\<rparr>],
      tickNumber = 7, armyCounter = 2, rng = (\<lambda>_. 1 / 2)\<rparr>"

definition orderedGame_num :: "number GameOf" where
  "orderedGame_num =
     \<lparr>nodes = lineMap_num[0 := (lineMap_num ! 0)\<lparr>assign := Some 1\<rparr>], armies = [],
      tickNumber = 7, armyCounter = 0, rng = (\<lambda>_. 1 / 2)\<rparr>"

definition nanGame :: "number GameOf" where
  "nanGame =
     \<lparr>nodes = lineMap_num[0 := (lineMap_num ! 0)\<lparr>troops := NaN, assign := Some 1\<rparr>],
      armies = [\<lparr>afrom = 0, ato = 1, atroops = NaN, ateam = Red, afinalDest = 1, aid = 0,
                 adistance = 0\<rparr>],
      tickNumber = 7, armyCounter = 1, rng = (\<lambda>_. 1 / 2)\<rparr>"

section \<open>Combat losses (C1)\<close>

text \<open>
  C1, as the code has it. For two positive, unequal troop pools and a value of
  \<^verbatim>\<open>Math.random()\<close> in \<open>[0, 1)\<close>, the random factor \<open>f\<close> lies in \<open>[0.9, 1.1]\<close>; the
  \<^emph>\<open>larger\<close> pool's raw loss is its own troop count times \<open>1/80\<close> times \<open>f\<close>, and the
  \<^emph>\<open>smaller\<close> pool's raw loss is the larger pool's raw loss times
  \<open>larger / smaller\<close>. Each raw loss is multiplied by its pool's combat modifier, rounded
  up and subtracted from the pool.
\<close>

theorem battle_larger_pool_own_formula:
  assumes "0 < troopsA" "0 < troopsB" "troopsA \<noteq> troopsB" "0 \<le> r 0" "r 0 < 1"
  shows "(let f = 1 - lossRadius + r 0 * 2 * lossRadius;
              larger = max troopsA troopsB; smaller = min troopsA troopsB;
              lossLarger = of_int larger * lossMeanRatio * f;
              lossSmaller = lossLarger * (of_int larger / of_int smaller)
          in 9 / 10 \<le> f \<and> f \<le> 11 / 10 \<and>
             fst (battle troopsA troopsB multA multB r) =
               (if troopsA < troopsB
                then (troopsA - \<lceil>lossSmaller * multA\<rceil>, troopsB - \<lceil>lossLarger * multB\<rceil>)
                else (troopsA - \<lceil>lossLarger * multA\<rceil>, troopsB - \<lceil>lossSmaller * multB\<rceil>)))"
  using assms by (auto simp: battle_def Let_def lossRadius_def max_def min_def)

text \<open>
  At 100 against 400 troops with \<^verbatim>\<open>Math.random()\<close> returning \<open>0.5\<close> the larger pool
  loses 5 and the smaller one 20.
\<close>

theorem battle_larger_pool_own_formula_witness:
  "fst (battle 100 400 1 1 (\<lambda>_. 1 / 2)) = (80, 395)"
  using battle_larger_pool_own_formula[of 100 400 "\<lambda>_. 1 / 2" 1 1]
  by (simp add: Let_def lossRadius_def lossMeanRatio_def)

text \<open>
  C1 as stated (the smaller pool loses by its own formula, the larger pool that loss
  times \<open>larger / smaller\<close>) fails there: no factor in \<open>[0.9, 1.1]\<close> gives the outcome
  of the code.
\<close>

theorem battle_smaller_pool_formula_counterexample:
  "\<not> (\<exists>f. 9 / 10 \<le> f \<and> f \<le> 11 / 10 \<and>
        fst (battle 100 400 1 1 (\<lambda>_. 1 / 2)) =
          (100 - \<lceil>(100 * lossMeanRatio * f) * 1\<rceil>,
           400 - \<lceil>(100 * lossMeanRatio * f) * (400 / 100) * 1\<rceil>))"
  by (auto simp: battle_def Let_def lossRadius_def lossMeanRatio_def ceiling_eq_iff)

section \<open>Serialization of the armies (C2)\<close>

text \<open>
  C2, as the code has it. The serialization of the active armies has one entry for
  each army, in order, made of the army's origin node id, current-hop destination node
  id, troop count, progress, team and army id; it has no final destination: changing
  the final destinations of the armies leaves the serialization as it is.
\<close>

theorem toJSON_fields_without_finalDest:
  "length (Game_toJSON_armies g) = length (armies g)
   \<and> map json_from (Game_toJSON_armies g) = map afrom (armies g)
   \<and> map json_to (Game_toJSON_armies g) = map ato (armies g)
   \<and> map json_troops (Game_toJSON_armies g) = map atroops (armies g)
   \<and> map json_distance (Game_toJSON_armies g) = map adistance (armies g)
   \<and> map json_team (Game_toJSON_armies g) = map ateam (armies g)
   \<and> map json_id (Game_toJSON_armies g) = map aid (armies g)
   \<and> Game_toJSON_armies (g\<lparr>armies := map (\<lambda>a. a\<lparr>afinalDest := d a\<rparr>) (armies g)\<rparr>)
       = Game_toJSON_armies g"
  by (simp add: Game_toJSON_armies_def toJSON_def comp_def)

text \<open>
  C2 as stated fails: no re-hydration recovers the final destination from the
  serialization, since two armies that differ in it alone serialize alike.
\<close>

theorem toJSON_finalDest_counterexample:
  "\<not> (\<exists>hydrate. \<forall>army. hydrate (toJSON army) = afinalDest army)"
proof
  assume "\<exists>hydrate. \<forall>army. hydrate (toJSON army) = afinalDest army"
  then obtain h where h: "\<And>army. h (toJSON army) = afinalDest army" by blast
  have "toJSON (fst twoArmies) = toJSON (snd twoArmies)"
    by (simp add: twoArmies_def toJSON_def)
  with h[of "fst twoArmies"] h[of "snd twoArmies"] show False
    by (simp add: twoArmies_def)
qed

section \<open>build (C6)\<close>

text \<open>
  C6, as the code has it. \<^verbatim>\<open>build(team, node, type)\<close> succeeds if and only if the
  team is not Neutral, the team owns the node, the type differs from the node's building
  and the node's troops are at least the cost of the type (Factory 200, PowerPlant 1000,
  Fort 500, Artillery 2000; Normal has no cost). On success the cost is debited from the
  node and its building is the type; otherwise the game is unchanged.
\<close>

theorem build_succeeds_iff:
  assumes "node < length (nodes g)"
  shows "buildingCosts Factory = Some 200 \<and> buildingCosts PowerPlant = Some 1000
     \<and> buildingCosts Fort = Some 500 \<and> buildingCosts Artillery = Some 2000
     \<and> (fst (build tm node ty g) \<longleftrightarrow>
          tm \<noteq> Neutral \<and> team (nodes g ! node) = tm \<and> type (nodes g ! node) \<noteq> ty
          \<and> (\<exists>cost. buildingCosts ty = Some cost \<and> cost \<le> troops (nodes g ! node)))
     \<and> (fst (build tm node ty g) \<longrightarrow>
          (\<exists>cost. buildingCosts ty = Some cost
            \<and> snd (build tm node ty g) =
                g\<lparr>nodes := (nodes g)[node :=
                     (nodes g ! node)\<lparr>type := ty, troops := troops (nodes g ! node) - cost\<rparr>]\<rparr>)
          \<and> type (nodes (snd (build tm node ty g)) ! node) = ty)
     \<and> (\<not> fst (build tm node ty g) \<longrightarrow> snd (build tm node ty g) = g)"
  using assms by (auto simp: build_def buildingCosts_def Let_def split: NodeType.splits)

text \<open>
  Red builds a Factory on its node that holds 250 troops and keeps 50; Blue, which does
  not own the node, is refused and nothing changes.
\<close>

theorem build_succeeds_iff_witness:
  "fst (build Red 0 Factory (lineGame\<lparr>nodes := lineMap[0 := (lineMap ! 0)\<lparr>troops := 250\<rparr>]\<rparr>))
   \<and> troops (nodes (snd (build Red 0 Factory
         (lineGame\<lparr>nodes := lineMap[0 := (lineMap ! 0)\<lparr>troops := 250\<rparr>]\<rparr>))) ! 0) = 50
   \<and> \<not> fst (build Blue 0 Factory lineGame) \<and> snd (build Blue 0 Factory lineGame) = lineGame"
  using build_succeeds_iff[of 0 "lineGame\<lparr>nodes := lineMap[0 := (lineMap ! 0)\<lparr>troops := 250\<rparr>]\<rparr>" Red Factory]
        build_succeeds_iff[of 0 lineGame Blue Factory]
  by (auto simp: lineGame_def lineMap_def mkNode_def buildingCosts_def)

text \<open>
  C6 as stated fails for the team Neutral: the neutral node 2 of \<open>lineGame\<close> has the
  team of the call, no Factory and 200 troops, and the call is refused by the guard
  \<^verbatim>\<open>team === Player.Team.Neutral\<close>.
\<close>

theorem build_neutral_counterexample:
  "\<not> (fst (build Neutral 2 Factory lineGame) \<longleftrightarrow>
        (team (nodes lineGame ! 2) = Neutral \<and> type (nodes lineGame ! 2) \<noteq> Factory
         \<and> troops (nodes lineGame ! 2) \<ge> 200))"
  by (simp add: build_def lineGame_def lineMap_def mkNode_def)

section \<open>Node production (C8)\<close>

lemma jsrem_2_odd: "jsrem t 2 \<noteq> 0 \<longleftrightarrow> odd t"
  by (auto simp: jsrem_def sgn_if) presburger+

lemma fold_count:
  "fold (\<lambda>a m. if P a then m + 1 else m) xs (c :: int) = c + int (length (filter P xs))"
  by (induction xs arbitrary: c) auto

text \<open>
  C8. After \<^verbatim>\<open>MapNode.tick(tickNumber)\<close> the flag \<^verbatim>\<open>wasAttacked\<close> is false. On an odd
  tick number, or when the flag was set, the troops are unchanged; otherwise a Factory
  gains \<open>2 * (1 + number of adjacent PowerPlant nodes of the node's team)\<close> troops and
  every other node, neutral ones too, gains 1. Owner, building, standing order and
  adjacency are untouched.
\<close>

theorem MapNode_tick_production:
  "(let this = ns ! k; node' = MapNode_tick ns k tickNo;
        plants = filter (\<lambda>a. team (ns ! a) = team this \<and> type (ns ! a) = PowerPlant) (adj this)
    in wasAttacked node' = False
       \<and> troops node' =
           (if odd tickNo \<or> wasAttacked this then troops this
            else if type this = Factory then troops this + 2 * (1 + int (length plants))
            else troops this + 1)
       \<and> team node' = team this \<and> type node' = type this \<and> assign node' = assign this
       \<and> adj node' = adj this)"
  using jsrem_2_odd[of tickNo]
  by (auto simp: MapNode_tick_def Let_def fold_count)

text \<open>
  Node 0 of \<open>lineMap\<close> holds 50 troops beside a PowerPlant of its team: nothing on tick
  3, one troop on tick 4, four troops on tick 4 once it has a Factory; the neutral node
  2 gains one troop.
\<close>

theorem MapNode_tick_production_witness:
  "troops (MapNode_tick lineMap 0 3) = 50 \<and> troops (MapNode_tick lineMap 0 4) = 51
   \<and> troops (MapNode_tick (lineMap[0 := (lineMap ! 0)\<lparr>type := Factory\<rparr>]) 0 4) = 54
   \<and> troops (MapNode_tick lineMap 2 4) = 201"
  using MapNode_tick_production[of lineMap 0 3] MapNode_tick_production[of lineMap 0 4]
    MapNode_tick_production[of "lineMap[0 := (lineMap ! 0)\<lparr>type := Factory\<rparr>]" 0 4]
    MapNode_tick_production[of lineMap 2 4]
  by (simp add: lineMap_def mkNode_def Let_def)

section \<open>unassign (C9)\<close>

text \<open>
  C9. A second \<^verbatim>\<open>unassign(team, from)\<close> right after the first returns what the first
  returned and leaves the game as the first left it.
\<close>

theorem unassign_idempotent:
  "unassign tm fromN (snd (unassign tm fromN g)) = unassign tm fromN g"
proof (cases "fromN < length (nodes g)")
  case True
  then show ?thesis by (auto simp: unassign_def)
next
  case False
  then have "\<And>v. (nodes g)[fromN := v] = nodes g"
    by (simp add: list_update_beyond)
  then show ?thesis by (simp add: unassign_def)
qed

theorem unassign_idempotent_witness:
  "unassign Red 0 (snd (unassign Red 0 lineGame)) = unassign Red 0 lineGame
   \<and> fst (unassign Red 0 lineGame)"
  using unassign_idempotent[of Red 0 lineGame]
  by (simp add: unassign_def lineGame_def lineMap_def mkNode_def)

section \<open>The router returns\<close>

text \<open>The loop over the adjacency of \<open>x\<close>, node by node.\<close>

lemma relax_fold:
  assumes "distT x = Some dx" "x \<in> D"
  shows "fold (relax ns fromN toN x D) as (distT, prevT) =
     ((\<lambda>v. if improves ns fromN toN x dx D as distT v
            then Some (dx + distance (ns ! x) (ns ! v)) else distT v),
      (\<lambda>v. if improves ns fromN toN x dx D as distT v then Some x else prevT v))"
  using assms
proof (induction as arbitrary: distT prevT)
  case Nil
  then show ?case by (simp add: improves_def)
next
  case (Cons a as)
  show ?case
  proof (cases "a \<notin> D \<and> inSub ns fromN toN a
                 \<and> distLess (Some (dx + distance (ns ! x) (ns ! a))) (distT a)")
    case True
    then have ax: "a \<noteq> x" using Cons.prems by auto
    have r: "relax ns fromN toN x D a (distT, prevT) =
          (distT(a := Some (dx + distance (ns ! x) (ns ! a))), prevT(a := Some x))"
      using True Cons.prems by (simp add: relax_def inSub_def Let_def)
    have dx': "(distT(a := Some (dx + distance (ns ! x) (ns ! a)))) x = Some dx"
      using ax Cons.prems by simp
    show ?thesis
      unfolding fold_simps r
        Cons.IH[of "distT(a := Some (dx + distance (ns ! x) (ns ! a)))" "prevT(a := Some x)",
          OF dx' Cons.prems(2)]
      using True by (auto simp: fun_eq_iff improves_def distLess_def)
  next
    case False
    have r: "relax ns fromN toN x D a (distT, prevT) = (distT, prevT)"
      using False Cons.prems by (auto simp: relax_def inSub_def Let_def)
    show ?thesis
      unfolding fold_simps r Cons.IH[of distT prevT, OF Cons.prems]
      using False by (auto simp: fun_eq_iff improves_def)
  qed
qed

lemma dijkstraLoop_rule:
  assumes "I distT prevT D"
    and "\<And>distT prevT D x dx. I distT prevT D \<Longrightarrow> selectNext (length ns) distT D = Some x
          \<Longrightarrow> distT x = Some dx \<Longrightarrow> x \<noteq> toN
          \<Longrightarrow> I (fst (fold (relax ns fromN toN x (insert x D)) (adj (ns ! x)) (distT, prevT)))
                (snd (fold (relax ns fromN toN x (insert x D)) (adj (ns ! x)) (distT, prevT)))
                (insert x D)"
  shows "case dijkstraLoop ns fromN toN distT prevT D of
           Some p \<Rightarrow> \<exists>d' D'. I d' p D' \<and> selectNext (length ns) d' D' = Some toN \<and> d' toN \<noteq> None
         | None \<Rightarrow> \<exists>d' p' D'. I d' p' D'
              \<and> (selectNext (length ns) d' D' = None
                 \<or> (\<exists>x. selectNext (length ns) d' D' = Some x \<and> d' x = None))"
  using assms
proof (induction ns fromN toN distT prevT D rule: dijkstraLoop.induct)
  case (1 ns fromN toN distT prevT D)
  show ?case
  proof (cases "selectNext (length ns) distT D")
    case None
    then show ?thesis
      using "1.prems"(1) by (subst dijkstraLoop.simps) auto
  next
    case (Some x)
    show ?thesis
    proof (cases "distT x")
      case None
      then show ?thesis
        using Some "1.prems"(1) by (subst dijkstraLoop.simps) auto
    next
      case (Some dx)
      note dx = this
      show ?thesis
      proof (cases "x = toN")
        case True
        then show ?thesis
          using \<open>selectNext (length ns) distT D = Some x\<close> dx "1.prems"(1)
          by (subst dijkstraLoop.simps) auto
      next
        case False
        let ?dp = "fold (relax ns fromN toN x (insert x D)) (adj (ns ! x)) (distT, prevT)"
        have I': "I (fst ?dp) (snd ?dp) (insert x D)"
          using "1.prems"(2)[OF "1.prems"(1) \<open>selectNext (length ns) distT D = Some x\<close> dx False] .
        have eq: "dijkstraLoop ns fromN toN distT prevT D
              = dijkstraLoop ns fromN toN (fst ?dp) (snd ?dp) (insert x D)"
          using \<open>selectNext (length ns) distT D = Some x\<close> dx False
          by (subst dijkstraLoop.simps) (simp add: Let_def)
        have "distT x \<noteq> None" using dx by simp
        from "1.IH"[OF \<open>selectNext (length ns) distT D = Some x\<close> this False refl I' "1.prems"(2)]
        show ?thesis unfolding eq by simp
      qed
    qed
  qed
qed

lemma chain_nonempty: "chain ns fromN toN prevT D v p d \<Longrightarrow> p \<noteq> []"
  by (induction rule: chain.induct) auto

lemma chain_len: "chain ns fromN toN prevT D v p d \<Longrightarrow> v \<noteq> fromN \<Longrightarrow> 1 < length p"
  by (cases rule: chain.cases) (auto dest: chain_nonempty)

lemma chain_mono:
  "chain ns fromN toN prevT D v p d \<Longrightarrow> D \<subseteq> D' \<Longrightarrow> (\<forall>w\<in>D. prevT' w = prevT w)
   \<Longrightarrow> prevT' v = prevT v \<Longrightarrow> chain ns fromN toN prevT' D' v p d"
proof (induction rule: chain.induct)
  case chain_base
  show ?case by (rule chain.chain_base)
next
  case (chain_step u p d v)
  have "chain ns fromN toN prevT' D' u p d"
    using chain_step.IH chain_step.prems chain_step.hyps(2) by blast
  moreover have "u \<in> D'" using chain_step.hyps(2) chain_step.prems(1) by blast
  moreover have "prevT' v = Some u" using chain_step.hyps(3) chain_step.prems(3) by simp
  ultimately show ?case
    using chain_step.hyps(4,5) by (intro chain.chain_step)
qed

lemma chain_from:
  assumes "chain ns fromN toN prevT D fromN p d" "prevT fromN = None"
  shows "p = [fromN]"
  using assms by (cases rule: chain.cases) auto

lemma walkBack_chain:
  assumes "chain ns fromN toN prevT D v p d" "prevT fromN = None"
  shows "walkBack prevT fromN v = Some (if v = fromN then None else Some (p ! 1))"
  using assms
proof (induction rule: chain.induct)
  case chain_base
  then show ?case by (subst walkBack.simps) simp
next
  case (chain_step u p d v)
  have vf: "v \<noteq> fromN" using chain_step.hyps(3) chain_step.prems by auto
  show ?case
  proof (cases "u = fromN")
    case True
    then have "p = [fromN]" using chain_from chain_step.hyps(1) chain_step.prems by blast
    then show ?thesis
      using True vf chain_step.hyps(3) by (subst walkBack.simps) simp
  next
    case False
    have len: "1 < length p"
      using chain_len[OF chain_step.hyps(1) False] .
    have "walkBack prevT fromN v = walkBack prevT fromN u"
      using chain_step.hyps(3) False by (subst walkBack.simps) simp
    also have "\<dots> = Some (Some (p ! 1))"
      using chain_step.IH[OF chain_step.prems] False by simp
    finally show ?thesis using vf len by (simp add: nth_append)
  qed
qed

lemma invA_init: "invA ns fromN toN ((\<lambda>_. None)(fromN := Some 0)) (\<lambda>_. None) {}"
  by (auto simp: invA_def intro: chain.chain_base split: if_splits)

lemma invA_step:
  assumes inv: "invA ns fromN toN distT prevT D"
    and dx: "distT x = Some dx"
  shows "invA ns fromN toN
           (fst (fold (relax ns fromN toN x (insert x D)) (adj (ns ! x)) (distT, prevT)))
           (snd (fold (relax ns fromN toN x (insert x D)) (adj (ns ! x)) (distT, prevT)))
           (insert x D)"
proof -
  let ?D' = "insert x D"
  let ?imp = "improves ns fromN toN x dx ?D' (adj (ns ! x)) distT"
  let ?d' = "\<lambda>v. if ?imp v then Some (dx + distance (ns ! x) (ns ! v)) else distT v"
  let ?p' = "\<lambda>v. if ?imp v then Some x else prevT v"
  have fold_eq: "fold (relax ns fromN toN x ?D') (adj (ns ! x)) (distT, prevT) = (?d', ?p')"
    by (rule relax_fold[of distT x dx "insert x D" ns fromN toN "adj (ns ! x)" prevT, OF dx]) simp
  have fD: "fromN \<in> ?D'"
    using inv dx by (auto simp: invA_def)
  have notimp: "\<And>w. w \<in> ?D' \<Longrightarrow> \<not> ?imp w"
    by (simp add: improves_def)
  have d0: "?d' fromN = Some 0" "?p' fromN = None"
    using inv notimp[OF fD] by (auto simp: invA_def)
  have ch: "\<exists>p. chain ns fromN toN ?p' ?D' v p d" if vd: "?d' v = Some d" for v d
  proof (cases "?imp v")
    case True
    then have d: "d = dx + distance (ns ! x) (ns ! v)" using vd by simp
    obtain p where p: "chain ns fromN toN prevT D x p dx"
      using inv dx unfolding invA_def by blast
    have "chain ns fromN toN ?p' ?D' x p dx"
      using p notimp by (intro chain_mono[OF p]) auto
    moreover have "?p' v = Some x" using True by simp
    moreover have "v \<in> set (adj (ns ! x))" "inSub ns fromN toN v"
      using True by (auto simp: improves_def)
    ultimately have "chain ns fromN toN ?p' ?D' v (p @ [v]) (dx + distance (ns ! x) (ns ! v))"
      by (intro chain.chain_step) auto
    then show ?thesis using d by blast
  next
    case False
    then have "distT v = Some d" using vd by simp
    then obtain p where p: "chain ns fromN toN prevT D v p d"
      using inv unfolding invA_def by blast
    have "chain ns fromN toN ?p' ?D' v p d"
      using p notimp False by (intro chain_mono[OF p]) auto
    then show ?thesis by blast
  qed
  show ?thesis
    unfolding fold_eq fst_conv snd_conv
    unfolding invA_def
    using d0 fD ch by blast
qed

lemma dijkstra_total: "\<exists>r. dijkstra ns fromN toN = Some r"
proof (cases "dijkstraLoop ns fromN toN ((\<lambda>_. None)(fromN := Some 0)) (\<lambda>_. None) {}")
  case None
  then show ?thesis by (simp add: dijkstra_def)
next
  case (Some prevT)
  have "case dijkstraLoop ns fromN toN ((\<lambda>_. None)(fromN := Some 0)) (\<lambda>_. None) {} of
           Some p \<Rightarrow> \<exists>d' D'. invA ns fromN toN d' p D'
              \<and> selectNext (length ns) d' D' = Some toN \<and> d' toN \<noteq> None
         | None \<Rightarrow> \<exists>d' p' D'. invA ns fromN toN d' p' D'
              \<and> (selectNext (length ns) d' D' = None
                 \<or> (\<exists>x. selectNext (length ns) d' D' = Some x \<and> d' x = None))"
    by (rule dijkstraLoop_rule[where I = "invA ns fromN toN", OF invA_init])
       (rule invA_step)
  then obtain d' D' where inv: "invA ns fromN toN d' prevT D'" and dt: "d' toN \<noteq> None"
    using Some by auto
  from dt obtain y where "d' toN = Some y" by auto
  with inv obtain p where "chain ns fromN toN prevT D' toN p y"
    unfolding invA_def by blast
  moreover have "prevT fromN = None" using inv by (simp add: invA_def)
  ultimately have "walkBack prevT fromN toN = Some (if toN = fromN then None else Some (p ! 1))"
    by (rule walkBack_chain)
  then show ?thesis using Some by (simp add: dijkstra_def)
qed

section \<open>The router on the concrete maps\<close>

lemma upt3: "[0..<3] = [0, 1, 2]"
  by (simp add: upt_rec)

lemma dijkstra_lineMap_0_1: "dijkstra lineMap 0 1 = Some (Some 1)"
  by (simp add: dijkstra_def selectNext_def relax_def distance_def distLess_def lineMap_def
      mkNode_def upt3 walkBack.simps Let_def)

lemma dijkstra_lineMap_2_1: "dijkstra lineMap 2 1 = Some (Some 1)"
  by (simp add: dijkstra_def selectNext_def relax_def distance_def distLess_def lineMap_def
      mkNode_def upt3 walkBack.simps Let_def)

lemma dijkstra_blockedMap_0_2: "dijkstra blockedMap 0 2 = Some None"
  by (simp add: dijkstra_def selectNext_def relax_def distance_def distLess_def blockedMap_def
      mkNode_def upt3 walkBack.simps Let_def)

lemma dijkstra_orderedGame_0_2: "dijkstra (nodes orderedGame) 0 2 = Some None"
  by (simp add: dijkstra_def selectNext_def relax_def distance_def distLess_def orderedGame_def
      lineGame_def blockedMap_def mkNode_def upt3 walkBack.simps Let_def)

section \<open>assign (C10)\<close>

text \<open>
  C10. For a team other than Neutral and a node \<open>fromN\<close> of that team,
  \<^verbatim>\<open>assign(team, from, to)\<close> returns and reports success for every target. The router
  returns some answer \<open>r\<close>; the standing order of \<open>fromN\<close> becomes the target when
  \<open>r\<close> is a node and none when the router finds no path, whatever it was before; nothing
  else changes.
\<close>

theorem assign_reports_success:
  assumes "tm \<noteq> Neutral" "team (nodes g ! fromN) = tm" "fromN < length (nodes g)"
  shows "\<exists>r g'. dijkstra (nodes g) fromN toN = Some r
           \<and> assign_cmd tm fromN toN g = Some (True, g')
           \<and> g' = g\<lparr>nodes := (nodes g)[fromN :=
                      (nodes g ! fromN)\<lparr>assign := (if r = None then None else Some toN)\<rparr>]\<rparr>
           \<and> assign (nodes g' ! fromN) = (if r = None then None else Some toN)"
proof -
  obtain r where r: "dijkstra (nodes g) fromN toN = Some r"
    using dijkstra_total by blast
  then show ?thesis
    using assms by (simp add: assign_cmd_def)
qed

text \<open>
  In \<open>orderedGame\<close> node 0 of Red has a standing order; node 2 is behind a Blue node, so
  the router finds no path to it: the call reports success and the order is gone.
\<close>

theorem assign_reports_success_witness:
  "assign (nodes orderedGame ! 0) = Some 1
   \<and> assign_cmd Red 0 2 orderedGame = Some (True, lineGame\<lparr>nodes := blockedMap\<rparr>)
   \<and> assign (nodes (lineGame\<lparr>nodes := blockedMap\<rparr>) ! 0) = None"
proof -
  have h: "Red \<noteq> Neutral" "team (nodes orderedGame ! 0) = Red" "0 < length (nodes orderedGame)"
    by (simp_all add: orderedGame_def lineGame_def blockedMap_def mkNode_def)
  from assign_reports_success[OF h, of 2] dijkstra_orderedGame_0_2
  have "assign_cmd Red 0 2 orderedGame = Some (True,
     orderedGame\<lparr>nodes := (nodes orderedGame)[0 := (nodes orderedGame ! 0)\<lparr>assign := None\<rparr>]\<rparr>)"
    by auto
  then show ?thesis
    by (simp add: orderedGame_def lineGame_def blockedMap_def mkNode_def)
qed

section \<open>sendArmy (C5)\<close>

text \<open>
  C5, as the code has it. For a team other than Neutral that owns \<open>fromN\<close>, when no
  enemy army on the edge from \<open>toN\<close> to \<open>fromN\<close> has reached the end of that edge and
  the router answers with a node \<open>target\<close>: the troops sent are the minimum of the
  request and the troops on \<open>fromN\<close>. If that is zero the call reports success and
  changes nothing; otherwise it reports success, debits that amount from \<open>fromN\<close> and
  appends one army with that amount, bound for \<open>target\<close> with the final destination
  \<open>toN\<close>.
\<close>

theorem sendArmy_dispatches_clamped:
  assumes "tm \<noteq> Neutral" "fromN < length (nodes g)" "team (nodes g ! fromN) = tm"
    and "\<forall>army \<in> set (armies g). \<not> (afrom army = toN \<and> ato army = fromN \<and> ateam army \<noteq> tm
           \<and> adistance army = intDistance (nodes g ! fromN) (nodes g ! toN))"
    and "dijkstra (nodes g) fromN toN = Some (Some target)"
  shows "(let sent = min trps (troops (nodes g ! fromN))
          in if sent = 0 then sendArmy tm fromN toN trps g = Some (True, g)
             else (\<exists>g'. sendArmy tm fromN toN trps g = Some (True, g')
                    \<and> troops (nodes g' ! fromN) = troops (nodes g ! fromN) - sent
                    \<and> armies g' = armies g @
                        [\<lparr>afrom = fromN, ato = target, atroops = sent, ateam = tm,
                          afinalDest = toN, aid = armyCounter g, adistance = 0\<rparr>]))"
  using assms by (auto simp: sendArmy_def Let_def list_ex_iff)

text \<open>
  Node 0 of \<open>lineGame\<close> holds 50 troops: a request for 1000 sends one army of 50 and
  leaves 0; a request for 0 changes nothing and succeeds.
\<close>

theorem sendArmy_dispatches_clamped_witness:
  "(\<exists>g'. sendArmy Red 0 1 1000 lineGame = Some (True, g') \<and> troops (nodes g' ! 0) = 0
      \<and> map atroops (armies g') = [50])
   \<and> sendArmy Red 0 1 0 lineGame = Some (True, lineGame)"
  using sendArmy_dispatches_clamped[of Red 0 lineGame 1 1 1000]
    sendArmy_dispatches_clamped[of Red 0 lineGame 1 1 0] dijkstra_lineMap_0_1
  by (auto simp: lineGame_def lineMap_def mkNode_def Let_def)

text \<open>
  C5 as stated fails for the team Neutral: node 2 of \<open>lineGame\<close> is neutral and holds
  200 troops, no army is on the map and the router finds node 1, yet the guard
  \<^verbatim>\<open>team === Player.Team.Neutral\<close> refuses the call. \<^verbatim>\<open>Game.tick\<close> makes such calls for
  a neutral node that still has a standing order.
\<close>

theorem sendArmy_neutral_counterexample:
  "\<not> (team (nodes lineGame ! 2) = Neutral
       \<and> (\<forall>army \<in> set (armies lineGame). \<not> (afrom army = 1 \<and> ato army = 2
             \<and> ateam army \<noteq> Neutral
             \<and> adistance army = intDistance (nodes lineGame ! 2) (nodes lineGame ! 1)))
       \<and> dijkstra (nodes lineGame) 2 1 = Some (Some 1)
       \<longrightarrow> (\<exists>g'. sendArmy Neutral 2 1 100 lineGame = Some (True, g')
             \<and> troops (nodes g' ! 2)
                 = troops (nodes lineGame ! 2) - min 100 (troops (nodes lineGame ! 2))))"
  using dijkstra_lineMap_2_1
  by (simp add: sendArmy_def lineGame_def lineMap_def mkNode_def)

section \<open>Failed commands (C7)\<close>

text \<open>
  C7. Every command returns for every input: \<^verbatim>\<open>sendArmy\<close> and \<^verbatim>\<open>assign\<close>, which run
  the router, return a boolean and a game; \<^verbatim>\<open>build\<close>, \<^verbatim>\<open>unassign\<close> and \<^verbatim>\<open>forfeit\<close>
  have no loop that could go on. Whenever one of them reports failure the game is the
  game before the call. \<^verbatim>\<open>getNodeByID\<close> answers with the node for an id in range and
  with none for every other id. The source has no \<^verbatim>\<open>throw\<close> in these operations, and a
  node passed to them is an object of the map, so the model has no exception to return.
\<close>

theorem commands_total_failure_keeps_state:
  "(\<exists>b g'. sendArmy tm fromN toN trps g = Some (b, g') \<and> (\<not> b \<longrightarrow> g' = g))
   \<and> (\<exists>b g'. assign_cmd tm fromN toN g = Some (b, g') \<and> (\<not> b \<longrightarrow> g' = g))
   \<and> (\<not> fst (build tm node ty g) \<longrightarrow> snd (build tm node ty g) = g)
   \<and> (\<not> fst (unassign tm fromN g) \<longrightarrow> snd (unassign tm fromN g) = g)
   \<and> (\<not> fst (forfeit tm g) \<longrightarrow> snd (forfeit tm g) = g)
   \<and> getNodeByID g nodeID =
       (if 0 \<le> nodeID \<and> nodeID < int (length (nodes g)) then Some (nat nodeID) else None)"
proof -
  obtain r where r: "dijkstra (nodes g) fromN toN = Some r"
    using dijkstra_total by blast
  have 1: "\<exists>b g'. sendArmy tm fromN toN trps g = Some (b, g') \<and> (\<not> b \<longrightarrow> g' = g)"
    using r by (cases r) (auto simp: sendArmy_def Let_def)
  have 2: "\<exists>b g'. assign_cmd tm fromN toN g = Some (b, g') \<and> (\<not> b \<longrightarrow> g' = g)"
    using r by (auto simp: assign_cmd_def)
  have 3: "\<not> fst (build tm node ty g) \<longrightarrow> snd (build tm node ty g) = g"
    by (auto simp: build_def Let_def split: option.splits)
  have 4: "\<not> fst (unassign tm fromN g) \<longrightarrow> snd (unassign tm fromN g) = g"
    by (auto simp: unassign_def)
  have 5: "\<not> fst (forfeit tm g) \<longrightarrow> snd (forfeit tm g) = g"
    by (auto simp: forfeit_def)
  have 6: "getNodeByID g nodeID =
       (if 0 \<le> nodeID \<and> nodeID < int (length (nodes g)) then Some (nat nodeID) else None)"
    by (auto simp: getNodeByID_def)
  show ?thesis using 1 2 3 4 5 6 by blast
qed

text \<open>
  On the map with the Blue node in the middle: Red cannot reach node 2, Blue does not
  own node 0, node 0 cannot pay for a Fort, Neutral cannot forfeit; each call fails and
  returns the game it was given. The ids 3 and -1 name no node.
\<close>

theorem commands_total_failure_keeps_state_witness:
  "sendArmy Red 0 2 5 (lineGame\<lparr>nodes := blockedMap\<rparr>)
     = Some (False, lineGame\<lparr>nodes := blockedMap\<rparr>)
   \<and> assign_cmd Blue 0 2 (lineGame\<lparr>nodes := blockedMap\<rparr>)
     = Some (False, lineGame\<lparr>nodes := blockedMap\<rparr>)
   \<and> build Red 0 Fort (lineGame\<lparr>nodes := blockedMap\<rparr>) = (False, lineGame\<lparr>nodes := blockedMap\<rparr>)
   \<and> unassign Blue 0 (lineGame\<lparr>nodes := blockedMap\<rparr>) = (False, lineGame\<lparr>nodes := blockedMap\<rparr>)
   \<and> forfeit Neutral (lineGame\<lparr>nodes := blockedMap\<rparr>) = (False, lineGame\<lparr>nodes := blockedMap\<rparr>)
   \<and> getNodeByID (lineGame\<lparr>nodes := blockedMap\<rparr>) 3 = None
   \<and> getNodeByID (lineGame\<lparr>nodes := blockedMap\<rparr>) (- 1) = None"
  using commands_total_failure_keeps_state[of Red 0 2 5 "lineGame\<lparr>nodes := blockedMap\<rparr>" 0 Fort 3]
    commands_total_failure_keeps_state[of Blue 0 2 5 "lineGame\<lparr>nodes := blockedMap\<rparr>" 0 Fort "- 1"]
    dijkstra_blockedMap_0_2
  by (simp add: sendArmy_def assign_cmd_def build_def unassign_def forfeit_def getNodeByID_def
      buildingCosts_def lineGame_def blockedMap_def mkNode_def)

section \<open>The router finds the first hop of a shortest route (C4)\<close>

lemma distance_nonneg: "0 \<le> distance p q"
  by (simp add: distance_def)

lemma pathOk_snoc:
  "q \<noteq> [] \<Longrightarrow> pathOk ns fromN toN (q @ [w]) =
     (pathOk ns fromN toN q \<and> w \<in> set (adj (ns ! last q)) \<and> inSub ns fromN toN w)"
  by (induction ns fromN toN q rule: pathOk.induct) auto

lemma pathLen_snoc:
  "q \<noteq> [] \<Longrightarrow> pathLen ns (q @ [w]) = pathLen ns q + distance (ns ! last q) (ns ! w)"
  by (induction ns q rule: pathLen.induct) auto

lemma pathLen_nonneg: "0 \<le> pathLen ns q"
  by (induction ns q rule: pathLen.induct) (auto simp: distance_nonneg)

lemma distLess_simps:
  "distLess None b = False" "distLess (Some u) None = True"
  "distLess (Some u) (Some v) = (u < v)"
  by (simp_all add: distLess_def)

lemma chain_route:
  "chain ns fromN toN prevT D v p d \<Longrightarrow>
     p \<noteq> [] \<and> hd p = fromN \<and> last p = v \<and> pathOk ns fromN toN p \<and> pathLen ns p = d"
proof (induction rule: chain.induct)
  case chain_base
  then show ?case by simp
next
  case (chain_step u p d v)
  then show ?case
    by (simp add: pathOk_snoc pathLen_snoc)
qed

lemma distLess_le_trans:
  "\<not> distLess b a \<Longrightarrow> \<not> distLess c b \<Longrightarrow> \<not> distLess c a"
  by (cases a; cases b; cases c) (auto simp: distLess_simps)

lemma distLess_less_le:
  "distLess k m \<Longrightarrow> \<not> distLess k x \<Longrightarrow> \<not> distLess m x"
  by (cases k; cases m; cases x) (auto simp: distLess_simps)

lemma selectNext_fold:
  "fold (\<lambda>node nextNodeID.
           if node \<notin> D \<and>
              (case nextNodeID of None \<Rightarrow> True | Some m \<Rightarrow> distLess (distT node) (distT m))
           then Some node else nextNodeID) ks acc = r
   \<Longrightarrow> (case r of
          None \<Rightarrow> acc = None \<and> (\<forall>k\<in>set ks. k \<in> D)
        | Some x \<Rightarrow> (acc = Some x \<or> (x \<in> set ks \<and> x \<notin> D))
             \<and> (\<forall>k\<in>set ks. k \<notin> D \<longrightarrow> \<not> distLess (distT k) (distT x))
             \<and> (\<forall>m. acc = Some m \<longrightarrow> \<not> distLess (distT m) (distT x)))"
proof (induction ks arbitrary: acc)
  case Nil
  then show ?case by (auto simp: distLess_def split: option.splits)
next
  case (Cons k ks)
  let ?f = "\<lambda>node nextNodeID.
           if node \<notin> D \<and>
              (case nextNodeID of None \<Rightarrow> True | Some m \<Rightarrow> distLess (distT node) (distT m))
           then Some node else nextNodeID"
  have r: "fold ?f ks (?f k acc) = r" using Cons.prems by simp
  note IH = Cons.IH[OF r]
  show ?case
  proof (cases "k \<notin> D \<and> (case acc of None \<Rightarrow> True | Some m \<Rightarrow> distLess (distT k) (distT m))")
    case True
    then have fk: "?f k acc = Some k" by simp
    show ?thesis
    proof (cases r)
      case None
      then show ?thesis using IH fk by simp
    next
      case (Some x)
      have 1: "x = k \<or> (x \<in> set ks \<and> x \<notin> D)"
        and 2: "\<forall>k'\<in>set ks. k' \<notin> D \<longrightarrow> \<not> distLess (distT k') (distT x)"
        and 3: "\<not> distLess (distT k) (distT x)"
        using IH fk Some by auto
      have 4: "\<forall>m. acc = Some m \<longrightarrow> \<not> distLess (distT m) (distT x)"
      proof (intro allI impI)
        fix m assume "acc = Some m"
        then have "distLess (distT k) (distT m)" using True by simp
        then show "\<not> distLess (distT m) (distT x)" using 3 by (rule distLess_less_le)
      qed
      show ?thesis using Some 1 2 3 4 True by auto
    qed
  next
    case False
    then have fk: "?f k acc = acc" by auto
    show ?thesis
    proof (cases r)
      case None
      then have "acc = None" "\<forall>k\<in>set ks. k \<in> D" using IH fk by auto
      then show ?thesis using None False by auto
    next
      case (Some x)
      have 1: "acc = Some x \<or> (x \<in> set ks \<and> x \<notin> D)"
        and 2: "\<forall>k'\<in>set ks. k' \<notin> D \<longrightarrow> \<not> distLess (distT k') (distT x)"
        and 3: "\<forall>m. acc = Some m \<longrightarrow> \<not> distLess (distT m) (distT x)"
        using IH fk Some by auto
      have "k \<notin> D \<Longrightarrow> \<not> distLess (distT k) (distT x)"
      proof -
        assume kD: "k \<notin> D"
        show ?thesis
        proof (cases acc)
          case None
          then show ?thesis using False kD by simp
        next
          case (Some m)
          then have "\<not> distLess (distT k) (distT m)" using False kD by simp
          moreover have "\<not> distLess (distT m) (distT x)" using 3 Some by simp
          ultimately show ?thesis by (rule distLess_le_trans[rotated])
        qed
      qed
      then show ?thesis using Some 1 2 3 by auto
    qed
  qed
qed

lemma selectNext_Some:
  assumes "selectNext n distT D = Some x"
  shows "x < n \<and> x \<notin> D \<and> (\<forall>k<n. k \<notin> D \<longrightarrow> \<not> distLess (distT k) (distT x))"
  using selectNext_fold[of D distT "[0..<n]" None "Some x"] assms
  by (auto simp: selectNext_def)

lemma selectNext_None:
  assumes "selectNext n distT D = None"
  shows "\<forall>k<n. k \<in> D"
  using selectNext_fold[of D distT "[0..<n]" None None] assms
  by (auto simp: selectNext_def)

lemma invB_init:
  assumes "fromN < length ns"
  shows "invB ns fromN toN ((\<lambda>_. None)(fromN := Some 0)) (\<lambda>_. None) {}"
  using assms invA_init[of ns fromN toN] by (auto simp: invB_def split: if_splits)

lemma invB_step:
  assumes wf: "\<forall>u<length ns. \<forall>v\<in>set (adj (ns ! u)). v < length ns"
    and inv: "invB ns fromN toN distT prevT D"
    and sel: "selectNext (length ns) distT D = Some x"
    and dx: "distT x = Some dx"
    and xt: "x \<noteq> toN"
  shows "invB ns fromN toN
           (fst (fold (relax ns fromN toN x (insert x D)) (adj (ns ! x)) (distT, prevT)))
           (snd (fold (relax ns fromN toN x (insert x D)) (adj (ns ! x)) (distT, prevT)))
           (insert x D)"
proof -
  let ?D' = "insert x D"
  let ?imp = "improves ns fromN toN x dx ?D' (adj (ns ! x)) distT"
  let ?w = "\<lambda>u v. distance (ns ! u) (ns ! v)"
  let ?d' = "\<lambda>v. if ?imp v then Some (dx + ?w x v) else distT v"
  let ?p' = "\<lambda>v. if ?imp v then Some x else prevT v"
  have fold_eq: "fold (relax ns fromN toN x ?D') (adj (ns ! x)) (distT, prevT) = (?d', ?p')"
    by (rule relax_fold[of distT x dx "insert x D" ns fromN toN "adj (ns ! x)" prevT, OF dx]) simp
  have A: "invA ns fromN toN distT prevT D"
    and sub: "D \<subseteq> {..<length ns}" and tD: "toN \<notin> D"
    and rngd: "\<And>v d. distT v = Some d \<Longrightarrow> v < length ns"
    and fin: "\<And>u. u \<in> D \<Longrightarrow> \<exists>du. distT u = Some du"
    and tri: "\<And>u v. u \<in> D \<Longrightarrow> v \<in> set (adj (ns ! u)) \<Longrightarrow> inSub ns fromN toN v \<Longrightarrow>
            \<exists>du dv. distT u = Some du \<and> distT v = Some dv \<and> dv \<le> du + ?w u v"
    and mono: "\<And>u v du dv. u \<in> D \<Longrightarrow> v \<notin> D \<Longrightarrow> distT u = Some du \<Longrightarrow> distT v = Some dv
            \<Longrightarrow> du \<le> dv"
    using inv unfolding invB_def by blast+
  have xn: "x < length ns" and xD: "x \<notin> D"
    and xmin: "\<And>k. k < length ns \<Longrightarrow> k \<notin> D \<Longrightarrow> \<not> distLess (distT k) (distT x)"
    using selectNext_Some[OF sel] by auto
  have notimp: "\<And>u. u \<in> ?D' \<Longrightarrow> \<not> ?imp u"
    by (simp add: improves_def)
  have same: "\<And>u. u \<in> ?D' \<Longrightarrow> ?d' u = distT u"
    using notimp by simp
  have impD: "\<And>v. ?imp v \<Longrightarrow> v \<in> set (adj (ns ! x)) \<and> v \<notin> ?D' \<and> inSub ns fromN toN v
                \<and> distLess (Some (dx + ?w x v)) (distT v)"
    by (simp add: improves_def)
  have A': "invA ns fromN toN ?d' ?p' ?D'"
    using invA_step[OF A dx] unfolding fold_eq by simp
  have 1: "?D' \<subseteq> {..<length ns}" using sub xn by simp
  have 2: "toN \<notin> ?D'" using tD xt by simp
  have 3: "\<And>v d. ?d' v = Some d \<Longrightarrow> v < length ns"
  proof -
    fix v d assume vd: "?d' v = Some d"
    show "v < length ns"
    proof (cases "?imp v")
      case True
      then show ?thesis using impD wf xn by blast
    next
      case False
      then show ?thesis using vd rngd by simp
    qed
  qed
  have 4: "\<And>u. u \<in> ?D' \<Longrightarrow> \<exists>du. ?d' u = Some du"
    using same fin dx by auto
  have 5: "\<exists>du dv. ?d' u = Some du \<and> ?d' v = Some dv \<and> dv \<le> du + ?w u v"
    if u: "u \<in> ?D'" and v: "v \<in> set (adj (ns ! u))" and s: "inSub ns fromN toN v" for u v
  proof (cases "u = x")
    case True
    have du: "?d' u = Some dx" using same[OF u] dx True by simp
    show ?thesis
    proof (cases "v \<in> ?D'")
      case vD: True
      have "\<exists>dv. distT v = Some dv \<and> dv \<le> dx"
      proof (cases "v = x")
        case True
        then show ?thesis using dx by simp
      next
        case False
        then have "v \<in> D" using vD by simp
        then show ?thesis using fin[of v] mono[of v x _ dx] xD dx by auto
      qed
      then obtain dv where "distT v = Some dv" "dv \<le> dx" by blast
      then show ?thesis
        using du same[OF vD] distance_nonneg[of "ns ! u" "ns ! v"] by auto
    next
      case vD: False
      show ?thesis
      proof (cases "?imp v")
        case True
        then show ?thesis using du \<open>u = x\<close> by simp
      next
        case False
        then have "\<not> distLess (Some (dx + ?w x v)) (distT v)"
          using v s vD \<open>u = x\<close> by (simp add: improves_def)
        then obtain dv where "distT v = Some dv" "dv \<le> dx + ?w x v"
          by (cases "distT v") (auto simp: distLess_simps)
        then show ?thesis using du False \<open>u = x\<close> by simp
      qed
    qed
  next
    case False
    then have uD: "u \<in> D" using u by simp
    obtain du dv where o: "distT u = Some du" "distT v = Some dv" "dv \<le> du + ?w u v"
      using tri[OF uD v s] by blast
    have du: "?d' u = Some du" using same[OF u] o(1) by simp
    show ?thesis
    proof (cases "?imp v")
      case True
      then have "dx + ?w x v < dv"
        using impD[OF True] o(2) by (simp add: distLess_simps)
      then show ?thesis using du True o(3) by simp
    next
      case False
      then show ?thesis using du o by simp
    qed
  qed
  have 6: "du \<le> dv"
    if u: "u \<in> ?D'" and v: "v \<notin> ?D'" and du: "?d' u = Some du" and dv: "?d' v = Some dv"
    for u v du dv
  proof -
    have du0: "distT u = Some du" using same[OF u] du by simp
    have udx: "du \<le> dx"
    proof (cases "u = x")
      case True
      then show ?thesis using du0 dx by simp
    next
      case False
      then show ?thesis using mono[of u x du dx] u xD du0 dx by simp
    qed
    show ?thesis
    proof (cases "?imp v")
      case True
      then have "dv = dx + ?w x v" using dv by simp
      then show ?thesis using udx distance_nonneg[of "ns ! x" "ns ! v"] by simp
    next
      case False
      then have dv0: "distT v = Some dv" using dv by simp
      show ?thesis
      proof (cases "u = x")
        case True
        have "v < length ns" using rngd[OF dv0] .
        then have "\<not> distLess (distT v) (distT x)" using xmin v by simp
        then show ?thesis using dv0 dx du0 True by (simp add: distLess_simps)
      next
        case False
        then show ?thesis using mono[of u v du dv] u v du0 dv0 by simp
      qed
    qed
  qed
  have r3: "\<forall>v d. ?d' v = Some d \<longrightarrow> v < length ns"
    using 3 by blast
  have r4: "\<forall>u\<in>?D'. \<exists>du. ?d' u = Some du"
    using 4 by blast
  have r5: "\<forall>u\<in>?D'. \<forall>v\<in>set (adj (ns ! u)). inSub ns fromN toN v \<longrightarrow>
            (\<exists>du dv. ?d' u = Some du \<and> ?d' v = Some dv \<and> dv \<le> du + ?w u v)"
    using 5 by blast
  have r6: "\<forall>u\<in>?D'. \<forall>v du dv. v \<notin> ?D' \<longrightarrow> ?d' u = Some du \<longrightarrow> ?d' v = Some dv \<longrightarrow> du \<le> dv"
    using 6 by blast
  show ?thesis
    unfolding fold_eq fst_conv snd_conv
    unfolding invB_def
    by (intro conjI A' 1 2 r3 r4 r5 r6)
qed

lemma lower_bound:
  assumes inv: "invB ns fromN toN distT prevT D" and fD: "fromN \<in> D"
    and q: "q \<noteq> []"
  shows "hd q = fromN \<Longrightarrow> pathOk ns fromN toN q \<Longrightarrow>
     (\<exists>y dy. y \<notin> D \<and> y < length ns \<and> distT y = Some dy \<and> dy \<le> pathLen ns q)
     \<or> (last q \<in> D \<and> (\<exists>d. distT (last q) = Some d \<and> d \<le> pathLen ns q))"
  using q
proof (induction q rule: rev_nonempty_induct)
  case (single x)
  have "distT fromN = Some 0" using inv by (simp add: invB_def invA_def)
  then show ?case using single fD by simp
next
  case (snoc w q)
  have hq: "hd q = fromN" using snoc.prems(1) snoc.hyps by simp
  have pq: "pathOk ns fromN toN q" and e: "w \<in> set (adj (ns ! last q))"
    and sw: "inSub ns fromN toN w"
    using snoc.prems(2) snoc.hyps by (simp_all add: pathOk_snoc)
  have len: "pathLen ns (q @ [w]) = pathLen ns q + distance (ns ! last q) (ns ! w)"
    using snoc.hyps by (rule pathLen_snoc)
  from snoc.IH[OF hq pq] show ?case
  proof
    assume "\<exists>y dy. y \<notin> D \<and> y < length ns \<and> distT y = Some dy \<and> dy \<le> pathLen ns q"
    then obtain y dy where "y \<notin> D" "y < length ns" "distT y = Some dy" "dy \<le> pathLen ns q"
      by blast
    moreover have "pathLen ns q \<le> pathLen ns (q @ [w])"
      using len distance_nonneg[of "ns ! last q" "ns ! w"] by simp
    ultimately show ?thesis by force
  next
    assume "last q \<in> D \<and> (\<exists>d. distT (last q) = Some d \<and> d \<le> pathLen ns q)"
    then obtain d where uD: "last q \<in> D" and d: "distT (last q) = Some d" "d \<le> pathLen ns q"
      by blast
    have "\<exists>du dv. distT (last q) = Some du \<and> distT w = Some dv
            \<and> dv \<le> du + distance (ns ! last q) (ns ! w)"
      using inv uD e sw unfolding invB_def by blast
    then obtain dv where dv: "distT w = Some dv" "dv \<le> d + distance (ns ! last q) (ns ! w)"
      using d(1) by auto
    have wl: "w < length ns" using inv dv(1) unfolding invB_def by blast
    have le: "dv \<le> pathLen ns (q @ [w])" using dv(2) d(2) len by simp
    show ?thesis
    proof (cases "w \<in> D")
      case True
      then show ?thesis using dv(1) le by simp
    next
      case False
      then show ?thesis using wl dv(1) le by blast
    qed
  qed
qed

lemma invB_from_done:
  assumes inv: "invB ns fromN toN distT prevT D" and f: "fromN < length ns"
    and ex: "selectNext (length ns) distT D = None
             \<or> (\<exists>x. selectNext (length ns) distT D = Some x \<and> (distT x = None \<or> x \<noteq> fromN))"
  shows "fromN \<in> D"
proof (rule ccontr)
  assume nD: "fromN \<notin> D"
  have d0: "distT fromN = Some 0" and only: "\<forall>v. v \<noteq> fromN \<longrightarrow> distT v = None"
    using inv nD by (auto simp: invB_def invA_def)
  from ex show False
  proof
    assume "selectNext (length ns) distT D = None"
    then show False using selectNext_None f nD by blast
  next
    assume "\<exists>x. selectNext (length ns) distT D = Some x \<and> (distT x = None \<or> x \<noteq> fromN)"
    then obtain x where x: "selectNext (length ns) distT D = Some x"
      and c: "distT x = None \<or> x \<noteq> fromN"
      by blast
    have "\<not> distLess (distT fromN) (distT x)"
      using selectNext_Some[OF x] f nD by blast
    then have "distT x \<noteq> None" using d0 by (cases "distT x") (auto simp: distLess_simps)
    then show False using c only by auto
  qed
qed

lemma dijkstraLoop_invB:
  assumes wf: "\<forall>u<length ns. \<forall>v\<in>set (adj (ns ! u)). v < length ns" and f: "fromN < length ns"
  shows "case dijkstraLoop ns fromN toN ((\<lambda>_. None)(fromN := Some 0)) (\<lambda>_. None) {} of
           Some p \<Rightarrow> \<exists>d' D'. invB ns fromN toN d' p D'
              \<and> selectNext (length ns) d' D' = Some toN \<and> d' toN \<noteq> None
         | None \<Rightarrow> \<exists>d' p' D'. invB ns fromN toN d' p' D'
              \<and> (selectNext (length ns) d' D' = None
                 \<or> (\<exists>x. selectNext (length ns) d' D' = Some x \<and> d' x = None))"
  by (rule dijkstraLoop_rule[where I = "invB ns fromN toN", OF invB_init[OF f]])
     (rule invB_step[OF wf])

lemma dijkstra_self: "dijkstra ns fromN fromN = Some None"
proof (cases "dijkstraLoop ns fromN fromN ((\<lambda>_. None)(fromN := Some 0)) (\<lambda>_. None) {}")
  case None
  then show ?thesis by (simp add: dijkstra_def)
next
  case (Some prevT)
  have "case dijkstraLoop ns fromN fromN ((\<lambda>_. None)(fromN := Some 0)) (\<lambda>_. None) {} of
           Some p \<Rightarrow> \<exists>d' D'. invA ns fromN fromN d' p D'
              \<and> selectNext (length ns) d' D' = Some fromN \<and> d' fromN \<noteq> None
         | None \<Rightarrow> \<exists>d' p' D'. invA ns fromN fromN d' p' D'
              \<and> (selectNext (length ns) d' D' = None
                 \<or> (\<exists>x. selectNext (length ns) d' D' = Some x \<and> d' x = None))"
    by (rule dijkstraLoop_rule[where I = "invA ns fromN fromN", OF invA_init])
       (rule invA_step)
  then obtain d' D' where inv: "invA ns fromN fromN d' prevT D'"
    using Some by auto
  then have "prevT fromN = None" by (simp add: invA_def)
  then have "walkBack prevT fromN fromN = Some None"
    by (subst walkBack.simps) simp
  then show ?thesis using Some by (simp add: dijkstra_def)
qed

lemma dijkstra_shortest:
  assumes wf: "\<forall>u<length ns. \<forall>v\<in>set (adj (ns ! u)). v < length ns"
    and f: "fromN < length ns" and ne: "fromN \<noteq> toN"
  shows "if \<exists>q. route ns fromN toN q
         then \<exists>p. route ns fromN toN p
                \<and> (\<forall>q. route ns fromN toN q \<longrightarrow> pathLen ns p \<le> pathLen ns q)
                \<and> dijkstra ns fromN toN = Some (Some (p ! 1))
         else dijkstra ns fromN toN = Some None"
proof (cases "dijkstraLoop ns fromN toN ((\<lambda>_. None)(fromN := Some 0)) (\<lambda>_. None) {}")
  case None
  then obtain d' p' D' where inv: "invB ns fromN toN d' p' D'"
    and ex: "selectNext (length ns) d' D' = None
              \<or> (\<exists>x. selectNext (length ns) d' D' = Some x \<and> d' x = None)"
    using dijkstraLoop_invB[OF wf f, of toN] by auto
  have fD: "fromN \<in> D'"
    using invB_from_done[OF inv f] ex by blast
  have tD: "toN \<notin> D'" using inv by (simp add: invB_def)
  have "\<not> route ns fromN toN q" for q
  proof
    assume r: "route ns fromN toN q"
    then have q: "q \<noteq> []" "hd q = fromN" "pathOk ns fromN toN q" "last q = toN"
      by (auto simp: route_def)
    from lower_bound[OF inv fD q(1) q(2) q(3)] tD q(4)
    obtain y dy where y: "y \<notin> D'" "y < length ns" "d' y = Some dy"
      by auto
    from ex show False
    proof
      assume "selectNext (length ns) d' D' = None"
      then show False using selectNext_None y by blast
    next
      assume "\<exists>x. selectNext (length ns) d' D' = Some x \<and> d' x = None"
      then obtain x where x: "selectNext (length ns) d' D' = Some x" "d' x = None" by blast
      have "\<not> distLess (d' y) (d' x)" using selectNext_Some[OF x(1)] y by blast
      then show False using y(3) x(2) by (simp add: distLess_simps)
    qed
  qed
  then show ?thesis using None by (simp add: dijkstra_def)
next
  case (Some prevT)
  then obtain d' D' where inv: "invB ns fromN toN d' prevT D'"
    and sel: "selectNext (length ns) d' D' = Some toN" and dt: "d' toN \<noteq> None"
    using dijkstraLoop_invB[OF wf f, of toN] by auto
  obtain d where d: "d' toN = Some d" using dt by auto
  have A: "invA ns fromN toN d' prevT D'" using inv by (simp add: invB_def)
  obtain p where ch: "chain ns fromN toN prevT D' toN p d"
    using A d unfolding invA_def by blast
  have pf: "prevT fromN = None" using A by (simp add: invA_def)
  have wb: "walkBack prevT fromN toN = Some (Some (p ! 1))"
    using walkBack_chain[OF ch pf] ne by simp
  have rp: "route ns fromN toN p" and lp: "pathLen ns p = d"
    using chain_route[OF ch] chain_len[OF ch] ne by (auto simp: route_def)
  have fD: "fromN \<in> D'"
    using invB_from_done[OF inv f] sel ne by blast
  have tD: "toN \<notin> D'" using inv by (simp add: invB_def)
  have short: "pathLen ns p \<le> pathLen ns q" if r: "route ns fromN toN q" for q
  proof -
    have q: "q \<noteq> []" "hd q = fromN" "pathOk ns fromN toN q" "last q = toN"
      using r by (auto simp: route_def)
    from lower_bound[OF inv fD q(1) q(2) q(3)] tD q(4)
    obtain y dy where y: "y \<notin> D'" "y < length ns" "d' y = Some dy" "dy \<le> pathLen ns q"
      by auto
    have "\<not> distLess (d' y) (d' toN)" using selectNext_Some[OF sel] y by blast
    then have "d \<le> dy" using y(3) d by (simp add: distLess_simps)
    then show ?thesis using lp y(4) by simp
  qed
  have "dijkstra ns fromN toN = Some (Some (p ! 1))"
    using Some wb by (simp add: dijkstra_def)
  then show ?thesis using rp short by auto
qed

text \<open>
  C4. On a map whose adjacency lists name nodes of the map, for every node \<open>fromN\<close> of
  the map and every \<open>toN\<close>: when \<open>fromN\<close> and \<open>toN\<close> differ and some route leads from
  \<open>fromN\<close> to \<open>toN\<close> through nodes of the team of \<open>fromN\<close> (the destination apart), the
  router returns the second node of a route that no other route undercuts in Euclidean
  length; when no route exists, and when \<open>fromN\<close> is \<open>toN\<close>, it returns
  \<^verbatim>\<open>undefined\<close>. Lengths are added as real numbers.
\<close>

theorem dijkstra_first_hop_of_shortest_route:
  assumes "\<forall>u<length ns. \<forall>v\<in>set (adj (ns ! u)). v < length ns" and "fromN < length ns"
  shows "if fromN \<noteq> toN \<and> (\<exists>q. route ns fromN toN q)
         then \<exists>p. route ns fromN toN p
                \<and> (\<forall>q. route ns fromN toN q \<longrightarrow> pathLen ns p \<le> pathLen ns q)
                \<and> dijkstra ns fromN toN = Some (Some (p ! 1))
         else dijkstra ns fromN toN = Some None"
proof (cases "fromN = toN")
  case True
  then show ?thesis using dijkstra_self[of ns fromN] by simp
next
  case False
  then show ?thesis using dijkstra_shortest[OF assms False] by simp
qed

text \<open>
  On \<open>lineMap\<close> the route from node 0 to the neutral node 2 runs over node 1 of Red,
  and node 1 is what the router returns; from node 0 to itself it returns
  \<^verbatim>\<open>undefined\<close>.
\<close>

theorem dijkstra_first_hop_of_shortest_route_witness:
  "(\<exists>p. route lineMap 0 2 p
        \<and> (\<forall>q. route lineMap 0 2 q \<longrightarrow> pathLen lineMap p \<le> pathLen lineMap q)
        \<and> dijkstra lineMap 0 2 = Some (Some (p ! 1)))
   \<and> dijkstra lineMap 0 2 = Some (Some 1) \<and> dijkstra lineMap 0 0 = Some None"
proof -
  have wf: "\<forall>u<length lineMap. \<forall>v\<in>set (adj (lineMap ! u)). v < length lineMap"
    by (simp add: lineMap_def mkNode_def less_Suc_eq numeral_3_eq_3 all_conj_distrib)
  have f: "0 < length lineMap" by (simp add: lineMap_def)
  have r: "route lineMap 0 2 [0, 1, 2]"
    by (simp add: route_def inSub_def lineMap_def mkNode_def)
  have "0 \<noteq> (2::nat) \<and> (\<exists>q. route lineMap 0 2 q)"
    using r by auto
  then have 1: "\<exists>p. route lineMap 0 2 p
        \<and> (\<forall>q. route lineMap 0 2 q \<longrightarrow> pathLen lineMap p \<le> pathLen lineMap q)
        \<and> dijkstra lineMap 0 2 = Some (Some (p ! 1))"
    using dijkstra_first_hop_of_shortest_route[OF wf f, of 2] by simp
  have 2: "dijkstra lineMap 0 0 = Some None"
    using dijkstra_first_hop_of_shortest_route[OF wf f, of 0] by simp
  have 3: "dijkstra lineMap 0 2 = Some (Some 1)"
    by (simp add: dijkstra_def selectNext_def relax_def distance_def distLess_def lineMap_def
        mkNode_def upt3 walkBack.simps Let_def)
  show ?thesis using 1 2 3 by blast
qed

section \<open>What a tick keeps (C3)\<close>

lemma nodesOk_length: "nodesOk ns0 ns \<Longrightarrow> length ns = length ns0"
  by (metis length_map nodesOk_def)

lemma nodesOk_pos:
  assumes "nodesOk ns0 ns" "k < length ns0"
  shows "xpos (ns ! k) = xpos (ns0 ! k)" "ypos (ns ! k) = ypos (ns0 ! k)"
proof -
  have l: "k < length ns" using assms nodesOk_length by simp
  have "map xpos ns ! k = map xpos ns0 ! k" "map ypos ns ! k = map ypos ns0 ! k"
    using assms by (simp_all add: nodesOk_def)
  then show "xpos (ns ! k) = xpos (ns0 ! k)" "ypos (ns ! k) = ypos (ns0 ! k)"
    using l assms(2) by simp_all
qed

lemma nodesOk_intDistance:
  assumes "nodesOk ns0 ns" "a < length ns0" "b < length ns0"
  shows "intDistance (ns ! a) (ns ! b) = intDistance (ns0 ! a) (ns0 ! b)"
  using nodesOk_pos[OF assms(1,2)] nodesOk_pos[OF assms(1,3)]
  by (simp add: intDistance_def distance_def)

lemma nodesOk_update:
  assumes "nodesOk ns0 ns" "k < length ns" "xpos n' = xpos (ns ! k)" "ypos n' = ypos (ns ! k)"
    "0 \<le> troops n'"
  shows "nodesOk ns0 (ns[k := n'])"
proof -
  have "map xpos (ns[k := n']) = map xpos ns" "map ypos (ns[k := n']) = map ypos ns"
    using assms(2,3,4) by (simp_all add: map_update list_update_same_conv)
  moreover have "\<forall>j<length (ns[k := n']). 0 \<le> troops (ns[k := n'] ! j)"
    using assms(1,2,5) by (auto simp: nodesOk_def nth_list_update)
  ultimately show ?thesis using assms(1) by (simp add: nodesOk_def)
qed

lemma armiesOk_troops:
  assumes "armiesOk ns0 i as" "j < length as" "i \<le> i'"
    and "i' \<le> j \<Longrightarrow> arrived ns0 (as ! j) \<Longrightarrow> 0 \<le> t"
  shows "armiesOk ns0 i' (as[j := (as ! j)\<lparr>atroops := t\<rparr>])"
  using assms unfolding armiesOk_def arrived_def
  by (auto simp: nth_list_update)

lemma armiesOk_advance:
  assumes "armiesOk ns0 i as" "i < length as"
  shows "armiesOk ns0 (Suc i) (as[i := (as ! i)\<lparr>adistance := adistance (as ! i) + 1\<rparr>])"
  using assms unfolding armiesOk_def arrived_def
  by (auto simp: nth_list_update)

lemma battleNode_node:
  "xpos (fst (battleNode ns node army r)) = xpos node
   \<and> ypos (fst (battleNode ns node army r)) = ypos node
   \<and> 0 \<le> troops (fst (battleNode ns node army r))"
  by (simp add: battleNode_def Let_def)

lemma battleNode_army:
  "\<exists>t. fst (snd (battleNode ns node army r)) = army\<lparr>atroops := t\<rparr>"
  by (auto simp: battleNode_def Let_def)

lemma collides_not_arrived:
  assumes ok: "armiesOk ns0 i as" and nok: "nodesOk ns0 ns"
    and i: "i < length as" and j: "j < length as" and ij: "Suc i \<le> j"
    and c: "collides ns (as ! i) (as ! j)"
  shows "\<not> arrived ns0 (as ! j)"
proof -
  have le: "adistance (as ! j) \<le> adistance (as ! i)"
    using ok i j ij unfolding armiesOk_def by (metis Suc_le_lessD le_refl)
  have rng: "afrom (as ! i) < length ns0" "ato (as ! i) < length ns0" "0 \<le> adistance (as ! i)"
    using ok i unfolding armiesOk_def by auto
  from c show ?thesis
    unfolding collides_def
  proof
    assume "areCollidingTail (as ! i) (as ! j)"
    then have "adistance (as ! i) = adistance (as ! j) - 1"
      by (simp add: areCollidingTail_def)
    with le show ?thesis by simp
  next
    assume "areCollidingHead ns (as ! i) (as ! j) \<and> ateam (as ! i) \<noteq> ateam (as ! j)"
    then have opp: "ato (as ! i) = afrom (as ! j)" "afrom (as ! i) = ato (as ! j)"
      and sum: "adistance (as ! i) + adistance (as ! j)
                  = intDistance (ns ! ato (as ! i)) (ns ! afrom (as ! i)) - 1"
      by (simp_all add: areCollidingHead_def oppositeDirection_def)
    have "intDistance (ns ! ato (as ! i)) (ns ! afrom (as ! i))
            = intDistance (ns0 ! afrom (as ! j)) (ns0 ! ato (as ! j))"
      using nodesOk_intDistance[OF nok rng(2) rng(1)] opp by simp
    with sum rng(3) show ?thesis
      by (simp add: arrived_def)
  qed
qed

lemma armyStep_inv:
  assumes inv: "tickInv ns0 n i s" and i: "i < n"
  shows "tickInv ns0 n (Suc i) (armyStep i s)"
proof -
  define ns where "ns = t_nodes s"
  define as where "as = t_armies s"
  define army where "army = as ! i"
  have nok: "nodesOk ns0 ns" and len: "length as = n" and aok: "armiesOk ns0 i as"
    and sok: "sendOk ns0 (t_send s)"
    using inv by (simp_all add: tickInv_def ns_def as_def)
  have il: "i < length as" using i len by simp
  have rng: "afrom army < length ns0" "ato army < length ns0" "0 \<le> adistance army"
    using aok il unfolding armiesOk_def army_def by auto
  have lns: "length ns = length ns0" using nok by (rule nodesOk_length)
  have d: "intDistance (ns ! afrom army) (ns ! ato army)
            = intDistance (ns0 ! afrom army) (ns0 ! ato army)"
    using nodesOk_intDistance[OF nok rng(1,2)] .
  show ?thesis
  proof (cases "adistance army = intDistance (ns ! afrom army) (ns ! ato army)")
    case True
    then have arr: "arrived ns0 army" using d by (simp add: arrived_def)
    then have tr: "0 \<le> atroops army"
      using aok il unfolding armiesOk_def army_def by auto
    show ?thesis
    proof (cases "ateam army \<noteq> team (ns ! ato army)")
      case enemy: True
      define res where "res = battleNode ns (ns ! ato army) army (t_rng s)"
      have step: "armyStep i s = s\<lparr>t_nodes := ns[ato army := fst res],
                       t_armies := as[i := fst (snd res)], t_rng := snd (snd res)\<rparr>"
        using True enemy
        by (simp add: armyStep_def Let_def ns_def[symmetric] as_def[symmetric]
            army_def[symmetric] res_def)
      have n': "nodesOk ns0 (ns[ato army := fst res])"
        using battleNode_node[of ns "ns ! ato army" army "t_rng s"] rng(2) lns nok
        by (intro nodesOk_update) (simp_all add: res_def)
      obtain t where t: "fst (snd res) = army\<lparr>atroops := t\<rparr>"
        using battleNode_army[of ns "ns ! ato army" army "t_rng s"] res_def by auto
      have a': "armiesOk ns0 (Suc i) (as[i := fst (snd res)])"
        unfolding t army_def by (rule armiesOk_troops[OF aok il]) simp_all
      show ?thesis
        unfolding step tickInv_def using n' a' sok len by simp
    next
      case friendly: False
      define node' where "node' = (ns ! ato army)\<lparr>troops := troops (ns ! ato army) + atroops army\<rparr>"
      define es where "es = (if afinalDest army \<noteq> ato army
                              then t_send s @ [(ato army, afinalDest army, atroops army)]
                              else t_send s)"
      have step: "armyStep i s = s\<lparr>t_nodes := ns[ato army := node'], t_send := es,
                       t_armies := as[i := army\<lparr>atroops := 0\<rparr>]\<rparr>"
        using True friendly
        by (simp add: armyStep_def Let_def ns_def[symmetric] as_def[symmetric]
            army_def[symmetric] node'_def es_def)
      have "0 \<le> troops (ns ! ato army)"
        using nok rng(2) lns by (simp add: nodesOk_def)
      then have n': "nodesOk ns0 (ns[ato army := node'])"
        using rng(2) lns nok tr by (intro nodesOk_update) (simp_all add: node'_def)
      have a': "armiesOk ns0 (Suc i) (as[i := army\<lparr>atroops := 0\<rparr>])"
        unfolding army_def by (rule armiesOk_troops[OF aok il]) simp_all
      have e': "sendOk ns0 es"
        using sok rng(2) tr by (auto simp: sendOk_def es_def)
      show ?thesis
        unfolding step tickInv_def using n' a' e' len by simp
    qed
  next
    case False
    show ?thesis
    proof (cases "find (\<lambda>j. collides ns army (as ! j)) [0..<length as]")
      case None
      have step: "armyStep i s = s\<lparr>t_armies := as[i := army\<lparr>adistance := adistance army + 1\<rparr>]\<rparr>"
        using False None
        by (simp add: armyStep_def Let_def ns_def[symmetric] as_def[symmetric]
            army_def[symmetric])
      have a': "armiesOk ns0 (Suc i) (as[i := army\<lparr>adistance := adistance army + 1\<rparr>])"
        unfolding army_def by (rule armiesOk_advance[OF aok il])
      show ?thesis
        unfolding step tickInv_def using nok a' sok len by (simp add: ns_def)
    next
      case (Some j)
      then have jl: "j < length as" and col: "collides ns (as ! i) (as ! j)"
        by (auto simp: find_Some_iff army_def)
      have K: "Suc i \<le> j \<Longrightarrow> \<not> arrived ns0 (as ! j)"
        using collides_not_arrived[OF aok nok il jl _ col] by simp
      define other where "other = as ! j"
      show ?thesis
      proof (cases "areCollidingTail army other \<and> ateam army = ateam other
                       \<and> afinalDest army = afinalDest other")
        case merge: True
        define as1 where "as1 = as[j := other\<lparr>atroops := atroops other + atroops army\<rparr>]"
        have step: "armyStep i s = s\<lparr>t_armies := as1[i := (as1 ! i)\<lparr>atroops := 0\<rparr>]\<rparr>"
          using False Some merge
          by (simp add: armyStep_def Let_def ns_def[symmetric] as_def[symmetric]
              army_def[symmetric] other_def[symmetric] as1_def)
        have a1: "armiesOk ns0 (Suc i) as1"
          unfolding as1_def other_def using K
          by (intro armiesOk_troops[OF aok jl]) simp_all
        have "armiesOk ns0 (Suc i) (as1[i := (as1 ! i)\<lparr>atroops := 0\<rparr>])"
          using il by (intro armiesOk_troops[OF a1]) (simp_all add: as1_def)
        then show ?thesis
          unfolding step tickInv_def using nok sok len by (simp add: ns_def as1_def)
      next
        case fight: False
        define res where "res = battleEdge ns army other (t_rng s)"
        define as1 where "as1 = as[i := army\<lparr>atroops := fst (fst res)\<rparr>]"
        have step: "armyStep i s = s\<lparr>t_armies := as1[j := (as1 ! j)\<lparr>atroops := snd (fst res)\<rparr>],
                         t_rng := snd res\<rparr>"
          using False Some fight
          by (auto simp: armyStep_def Let_def ns_def[symmetric] as_def[symmetric]
              army_def[symmetric] other_def[symmetric] as1_def res_def)
        have a1: "armiesOk ns0 (Suc i) as1"
          unfolding as1_def army_def by (rule armiesOk_troops[OF aok il]) simp_all
        have j1: "j < length as1" using jl by (simp add: as1_def)
        have "Suc i \<le> j \<Longrightarrow> as1 ! j = as ! j"
          by (simp add: as1_def)
        then have "armiesOk ns0 (Suc i) (as1[j := (as1 ! j)\<lparr>atroops := snd (fst res)\<rparr>])"
          using K by (intro armiesOk_troops[OF a1 j1]) auto
        then show ?thesis
          unfolding step tickInv_def using nok sok len by (simp add: ns_def as1_def)
      qed
    qed
  qed
qed

lemma fold_upt_inv:
  assumes "\<And>i s. i < n \<Longrightarrow> P i s \<Longrightarrow> P (Suc i) (f i s)" "P 0 s"
  shows "P n (fold f [0..<n] s)"
  using assms
proof (induction n)
  case 0
  then show ?case by simp
next
  case (Suc n)
  have "P n (fold f [0..<n] s)"
    using Suc by simp
  then show ?case
    using Suc.prems(1)[of n] by simp
qed

lemma armiesOk_sorted:
  assumes "\<forall>a\<in>set as. afrom a < length ns0 \<and> ato a < length ns0 \<and> 0 \<le> adistance a"
    and "\<forall>a\<in>set as. arrived ns0 a \<longrightarrow> 0 \<le> atroops a"
  shows "armiesOk ns0 0 (sort_key (\<lambda>a. - adistance a) as)"
proof -
  let ?s = "sort_key (\<lambda>a. - adistance a) as"
  have mem: "\<And>j. j < length ?s \<Longrightarrow> ?s ! j \<in> set as"
    by (metis nth_mem set_sort)
  have "sorted (map (\<lambda>a. - adistance a) ?s)"
    by (rule sorted_sort_key)
  then have "\<And>j k. j < k \<Longrightarrow> k < length ?s \<Longrightarrow> adistance (?s ! k) \<le> adistance (?s ! j)"
    by (force simp: sorted_iff_nth_mono_less)
  then show ?thesis
    unfolding armiesOk_def using assms mem by blast
qed

lemma MapArmy_tick_ok:
  assumes n: "\<forall>k<length ns. 0 \<le> troops (ns ! k)"
    and a: "\<forall>a\<in>set as. afrom a < length ns \<and> ato a < length ns \<and> 0 \<le> adistance a"
    and t: "\<forall>a\<in>set as. arrived ns a \<longrightarrow> 0 \<le> atroops a"
  shows "length (t_nodes (MapArmy_tick ns as r)) = length ns
     \<and> (\<forall>k<length ns. 0 \<le> troops (t_nodes (MapArmy_tick ns as r) ! k))
     \<and> (\<forall>a\<in>set (t_armies (MapArmy_tick ns as r)). 0 < atroops a)
     \<and> sendOk ns (t_send (MapArmy_tick ns as r))"
proof -
  let ?sorted = "sort_key (\<lambda>a. - adistance a) as"
  let ?start = "\<lparr>t_nodes = ns, t_armies = ?sorted, t_send = [], t_rng = r\<rparr>"
  let ?final = "fold armyStep [0..<length ?sorted] ?start"
  have init: "tickInv ns (length ?sorted) 0 ?start"
    using n armiesOk_sorted[OF a t] by (simp add: tickInv_def nodesOk_def sendOk_def)
  have step: "\<And>i s. i < length ?sorted \<Longrightarrow> tickInv ns (length ?sorted) i s
                \<Longrightarrow> tickInv ns (length ?sorted) (Suc i) (armyStep i s)"
    by (rule armyStep_inv)
  have "tickInv ns (length ?sorted) (length ?sorted) ?final"
    by (rule fold_upt_inv[where P = "tickInv ns (length ?sorted)", OF step init])
  then have nok: "nodesOk ns (t_nodes ?final)" and sok: "sendOk ns (t_send ?final)"
    by (simp_all add: tickInv_def)
  have eq: "MapArmy_tick ns as r = ?final\<lparr>t_armies := filter (\<lambda>army. atroops army > 0) (t_armies ?final)\<rparr>"
    by (simp add: MapArmy_tick_def Let_def)
  show ?thesis
    unfolding eq using nok sok nodesOk_length[OF nok] by (simp add: nodesOk_def)
qed

lemma MapNode_tick_troops: "troops (ns ! k) \<le> troops (MapNode_tick ns k tickNo)"
  by (simp add: MapNode_tick_def Let_def fold_count)

lemma sendArmy_ok:
  assumes "gameOk g" "fromN < length (nodes g)" "0 \<le> trps"
  shows "\<exists>b g'. sendArmy tm fromN toN trps g = Some (b, g') \<and> gameOk g'
           \<and> length (nodes g') = length (nodes g)"
proof -
  obtain r where r: "dijkstra (nodes g) fromN toN = Some r"
    using dijkstra_total by blast
  have tr: "0 \<le> troops (nodes g ! fromN)"
    using assms(1,2) by (simp add: gameOk_def)
  show ?thesis
  proof (cases r)
    case None
    then show ?thesis using r assms(1) by (auto simp: sendArmy_def Let_def)
  next
    case (Some target)
    let ?sent = "min trps (troops (nodes g ! fromN))"
    let ?g' = "g\<lparr>nodes := (nodes g)[fromN :=
                  (nodes g ! fromN)\<lparr>troops := troops (nodes g ! fromN) - ?sent\<rparr>],
               armies := armies g @
                  [\<lparr>afrom = fromN, ato = target, atroops = ?sent,
                    ateam = team (nodes g ! fromN), afinalDest = toN,
                    aid = armyCounter g, adistance = 0\<rparr>],
               armyCounter := armyCounter g + 1\<rparr>"
    have ok': "?sent \<noteq> 0 \<Longrightarrow> gameOk ?g'"
      using assms tr by (auto simp: gameOk_def nth_list_update)
    have "sendArmy tm fromN toN trps g = Some (False, g)
          \<or> sendArmy tm fromN toN trps g = Some (True, g)
          \<or> (?sent \<noteq> 0 \<and> sendArmy tm fromN toN trps g = Some (True, ?g'))"
      using r Some by (simp add: sendArmy_def Let_def)
    then show ?thesis using assms(1) ok' by auto
  qed
qed

lemma nodeStep_ok:
  assumes "gameOk g" "k < length (nodes g)"
  shows "\<exists>g'. nodeStep k g = Some g' \<and> gameOk g' \<and> length (nodes g') = length (nodes g)"
proof -
  define g1 where "g1 = g\<lparr>nodes := (nodes g)[k := MapNode_tick (nodes g) k (tickNumber g)]\<rparr>"
  have "0 \<le> troops (nodes g ! k)" using assms by (simp add: gameOk_def)
  then have t0: "0 \<le> troops (MapNode_tick (nodes g) k (tickNumber g))"
    using MapNode_tick_troops[of "nodes g" k "tickNumber g"] by simp
  have ok1: "gameOk g1" and l1: "length (nodes g1) = length (nodes g)"
    using assms t0 by (auto simp: gameOk_def g1_def nth_list_update)
  have k1: "k < length (nodes g1)" using assms(2) l1 by simp
  have t1: "0 \<le> troops (nodes g1 ! k)" using ok1 k1 by (simp add: gameOk_def)
  show ?thesis
  proof (cases "assign (nodes g1 ! k)")
    case None
    then show ?thesis using ok1 l1 by (simp add: nodeStep_def Let_def g1_def[symmetric])
  next
    case (Some target)
    show ?thesis
    proof (cases "jsrem (tickNumber g1) 8 = 0")
      case False
      then show ?thesis
        using Some ok1 l1 by (simp add: nodeStep_def Let_def g1_def[symmetric])
    next
      case True
      obtain b g2 where s: "sendArmy (team (nodes g1 ! k)) k target (troops (nodes g1 ! k)) g1
                              = Some (b, g2)"
        and ok2: "gameOk g2" and l2: "length (nodes g2) = length (nodes g1)"
        using sendArmy_ok[OF ok1 k1 t1] by blast
      have ok3: "gameOk (g2\<lparr>nodes := (nodes g2)[k := (nodes g2 ! k)\<lparr>assign := None\<rparr>]\<rparr>)"
        using ok2 k1 l2 by (auto simp: gameOk_def nth_list_update)
      show ?thesis
        using Some True s ok2 ok3 l1 l2
        by (simp add: nodeStep_def Let_def g1_def[symmetric])
    qed
  qed
qed

lemma sendStep_ok:
  assumes "gameOk g" "fst e < length (nodes g)" "0 \<le> snd (snd e)"
  shows "\<exists>g'. sendStep e g = Some g' \<and> gameOk g' \<and> length (nodes g') = length (nodes g)"
  using sendArmy_ok[OF assms, of "team (nodes g ! fst e)" "fst (snd e)"]
  by (auto simp: sendStep_def)

lemma foldOpt_inv:
  assumes "\<And>x s. x \<in> set xs \<Longrightarrow> P s \<Longrightarrow> \<exists>s'. f x s = Some s' \<and> P s'" "P s"
  shows "\<exists>s'. foldOpt f xs s = Some s' \<and> P s'"
  using assms
proof (induction xs arbitrary: s)
  case Nil
  then show ?case by simp
next
  case (Cons x xs)
  obtain s1 where s1: "f x s = Some s1" "P s1"
    using Cons.prems(1)[of x s] Cons.prems(2) by auto
  have "\<exists>s'. foldOpt f xs s1 = Some s' \<and> P s'"
    using Cons.prems(1) s1(2) by (intro Cons.IH) auto
  then show ?case using s1(1) by simp
qed

subsection \<open>The games the program reaches\<close>

text \<open>
  The lemmas of this part show that \<open>stateOk\<close> holds of a new game on a generated map
  and is kept by every command and by every tick, as long as the troop counts are
  integers: \<^verbatim>\<open>sendArmy\<close> is called with an integer for \<^verbatim>\<open>troops\<close>, negative ones
  included. \<open>stateOk_hypotheses\<close> turns \<open>stateOk\<close> into the hypotheses of
  \<open>Game_tick_troops_in_range\<close> below.
\<close>

lemma sameMap_refl: "sameMap ns ns"
  by (simp add: sameMap_def)

lemma sameMap_length: "sameMap ns0 ns \<Longrightarrow> length ns = length ns0"
  by (metis length_map sameMap_def)

lemma sameMap_nth:
  assumes "sameMap ns0 ns" "k < length ns0"
  shows "xpos (ns ! k) = xpos (ns0 ! k)" "ypos (ns ! k) = ypos (ns0 ! k)"
    "adj (ns ! k) = adj (ns0 ! k)"
proof -
  have l: "k < length ns" using assms sameMap_length by simp
  have "map xpos ns ! k = map xpos ns0 ! k" "map ypos ns ! k = map ypos ns0 ! k"
    "map adj ns ! k = map adj ns0 ! k"
    using assms by (simp_all add: sameMap_def)
  then show "xpos (ns ! k) = xpos (ns0 ! k)" "ypos (ns ! k) = ypos (ns0 ! k)"
    "adj (ns ! k) = adj (ns0 ! k)"
    using l assms(2) by simp_all
qed

lemma sameMap_intDistance:
  assumes "sameMap ns0 ns" "a < length ns0" "b < length ns0"
  shows "intDistance (ns ! a) (ns ! b) = intDistance (ns0 ! a) (ns0 ! b)"
  using sameMap_nth(1,2)[OF assms(1,2)] sameMap_nth(1,2)[OF assms(1,3)]
  by (simp add: intDistance_def distance_def)

lemma sameMap_trans: "sameMap a b \<Longrightarrow> sameMap b c \<Longrightarrow> sameMap a c"
  by (simp add: sameMap_def)

lemma sameMap_update:
  assumes "sameMap ns0 ns"
    and "k < length ns \<Longrightarrow> xpos n' = xpos (ns ! k) \<and> ypos n' = ypos (ns ! k) \<and> adj n' = adj (ns ! k)"
  shows "sameMap ns0 (ns[k := n'])"
proof (cases "k < length ns")
  case True
  then have "map xpos (ns[k := n']) = map xpos ns" "map ypos (ns[k := n']) = map ypos ns"
    "map adj (ns[k := n']) = map adj ns"
    using assms(2) by (simp_all add: map_update list_update_same_conv)
  then show ?thesis using assms(1) by (simp add: sameMap_def)
next
  case False
  then show ?thesis using assms(1) by (simp add: list_update_beyond)
qed

lemma sameMap_mapOk:
  assumes "sameMap ns0 ns" "mapOk ns0"
  shows "mapOk ns"
  unfolding mapOk_def
proof (intro allI impI ballI)
  fix u v assume u: "u < length ns" and v: "v \<in> set (adj (ns ! u))"
  have u0: "u < length ns0" using u sameMap_length[OF assms(1)] by simp
  then have "v \<in> set (adj (ns0 ! u))" using v sameMap_nth(3)[OF assms(1)] by simp
  then have v0: "v < length ns0" and d: "1 \<le> intDistance (ns0 ! u) (ns0 ! v)"
    using assms(2) u0 by (auto simp: mapOk_def)
  show "v < length ns \<and> 1 \<le> intDistance (ns ! u) (ns ! v)"
    using v0 d sameMap_length[OF assms(1)] sameMap_intDistance[OF assms(1) u0 v0] by simp
qed

lemma sameMap_armyOk:
  assumes "sameMap ns0 ns" "armyOk ns0 a"
  shows "armyOk ns a"
  using assms sameMap_length[OF assms(1)]
    sameMap_intDistance[OF assms(1), of "afrom a" "ato a"]
  by (auto simp: armyOk_def arrived_def)

lemma battleNode_map:
  "xpos (fst (battleNode ns node army r)) = xpos node
   \<and> ypos (fst (battleNode ns node army r)) = ypos node
   \<and> adj (fst (battleNode ns node army r)) = adj node"
  by (simp add: battleNode_def Let_def)

lemma armyStep_sameMap: "sameMap (t_nodes s) (t_nodes (armyStep i s))"
  using battleNode_map[of "t_nodes s" "t_nodes s ! ato (t_armies s ! i)" "t_armies s ! i" "t_rng s"]
  by (auto simp: armyStep_def Let_def sameMap_refl intro!: sameMap_update split: option.splits)

lemma fold_armyStep_sameMap: "sameMap (t_nodes s) (t_nodes (fold armyStep is s))"
proof (induction "is" arbitrary: s)
  case Nil
  then show ?case by (simp add: sameMap_refl)
next
  case (Cons i "is")
  show ?case
    using sameMap_trans[OF armyStep_sameMap[of s i] Cons.IH[of "armyStep i s"]] by simp
qed

lemma MapArmy_tick_sameMap: "sameMap ns (t_nodes (MapArmy_tick ns as r))"
  using fold_armyStep_sameMap[of "\<lparr>t_nodes = ns, t_armies = sort_key (\<lambda>a. - adistance a) as,
      t_send = [], t_rng = r\<rparr>" "[0..<length as]"]
  by (simp add: MapArmy_tick_def Let_def)

lemma chain_second:
  "chain ns fromN toN prevT D v p d \<Longrightarrow> 1 < length p \<Longrightarrow> p ! 1 \<in> set (adj (ns ! fromN))"
proof (induction rule: chain.induct)
  case chain_base
  then show ?case by simp
next
  case (chain_step u p d v)
  have r: "p \<noteq> []" "hd p = fromN" "last p = u"
    using chain_route[OF chain_step.hyps(1)] by simp_all
  show ?case
  proof (cases "1 < length p")
    case True
    then show ?thesis using chain_step.IH by (simp add: nth_append)
  next
    case False
    then have "length p = 1" using r(1) by (cases p) auto
    then have "p = [fromN]" using r(2) by (cases p) auto
    then show ?thesis using r(3) chain_step.hyps(4) by simp
  qed
qed

lemma dijkstra_adjacent:
  assumes "dijkstra ns fromN toN = Some (Some h)"
  shows "h \<in> set (adj (ns ! fromN))"
proof (cases "dijkstraLoop ns fromN toN ((\<lambda>_. None)(fromN := Some 0)) (\<lambda>_. None) {}")
  case None
  then show ?thesis using assms by (simp add: dijkstra_def)
next
  case (Some prevT)
  have "case dijkstraLoop ns fromN toN ((\<lambda>_. None)(fromN := Some 0)) (\<lambda>_. None) {} of
           Some p \<Rightarrow> \<exists>d' D'. invA ns fromN toN d' p D'
              \<and> selectNext (length ns) d' D' = Some toN \<and> d' toN \<noteq> None
         | None \<Rightarrow> \<exists>d' p' D'. invA ns fromN toN d' p' D'
              \<and> (selectNext (length ns) d' D' = None
                 \<or> (\<exists>x. selectNext (length ns) d' D' = Some x \<and> d' x = None))"
    by (rule dijkstraLoop_rule[where I = "invA ns fromN toN", OF invA_init])
       (rule invA_step)
  then obtain d' D' where inv: "invA ns fromN toN d' prevT D'" and dt: "d' toN \<noteq> None"
    using Some by auto
  from dt obtain y where "d' toN = Some y" by auto
  with inv obtain p where ch: "chain ns fromN toN prevT D' toN p y"
    unfolding invA_def by blast
  have pf: "prevT fromN = None" using inv by (simp add: invA_def)
  have wb: "walkBack prevT fromN toN = Some (if toN = fromN then None else Some (p ! 1))"
    using ch pf by (rule walkBack_chain)
  have "dijkstra ns fromN toN = walkBack prevT fromN toN"
    using Some by (simp add: dijkstra_def)
  then have ne: "toN \<noteq> fromN" and h: "h = p ! 1"
    using assms wb by (auto split: if_splits)
  show ?thesis
    unfolding h using chain_second[OF ch chain_len[OF ch ne]] .
qed

text \<open>What \<^verbatim>\<open>sendArmy\<close> does to the game, case by case.\<close>

lemma sendArmy_cases:
  assumes "sendArmy tm fromN toN trps g = Some (b, g')"
  shows "g' = g \<or>
     (\<exists>target. dijkstra (nodes g) fromN toN = Some (Some target)
        \<and> team (nodes g ! fromN) = tm
        \<and> g' = g\<lparr>nodes := (nodes g)[fromN :=
                  (nodes g ! fromN)\<lparr>troops := troops (nodes g ! fromN)
                      - min trps (troops (nodes g ! fromN))\<rparr>],
               armies := armies g @
                  [\<lparr>afrom = fromN, ato = target, atroops = min trps (troops (nodes g ! fromN)),
                    ateam = team (nodes g ! fromN), afinalDest = toN,
                    aid = armyCounter g, adistance = 0\<rparr>],
               armyCounter := armyCounter g + 1\<rparr>)"
  using assms
  by (auto simp: sendArmy_def Let_def split: if_splits option.splits)

lemma stateOk_sendArmy:
  assumes ok: "stateOk g" and f: "fromN < length (nodes g)"
    and s: "sendArmy tm fromN toN trps g = Some (b, g')"
  shows "stateOk g'"
proof -
  from sendArmy_cases[OF s] show ?thesis
  proof
    assume "g' = g"
    then show ?thesis using ok by simp
  next
    assume "\<exists>target. dijkstra (nodes g) fromN toN = Some (Some target)
        \<and> team (nodes g ! fromN) = tm
        \<and> g' = g\<lparr>nodes := (nodes g)[fromN :=
                  (nodes g ! fromN)\<lparr>troops := troops (nodes g ! fromN)
                      - min trps (troops (nodes g ! fromN))\<rparr>],
               armies := armies g @
                  [\<lparr>afrom = fromN, ato = target, atroops = min trps (troops (nodes g ! fromN)),
                    ateam = team (nodes g ! fromN), afinalDest = toN,
                    aid = armyCounter g, adistance = 0\<rparr>],
               armyCounter := armyCounter g + 1\<rparr>"
    then obtain target where d: "dijkstra (nodes g) fromN toN = Some (Some target)"
      and g': "g' = g\<lparr>nodes := (nodes g)[fromN :=
                  (nodes g ! fromN)\<lparr>troops := troops (nodes g ! fromN)
                      - min trps (troops (nodes g ! fromN))\<rparr>],
               armies := armies g @
                  [\<lparr>afrom = fromN, ato = target, atroops = min trps (troops (nodes g ! fromN)),
                    ateam = team (nodes g ! fromN), afinalDest = toN,
                    aid = armyCounter g, adistance = 0\<rparr>],
               armyCounter := armyCounter g + 1\<rparr>"
      by blast
    define ns' where "ns' = (nodes g)[fromN :=
                  (nodes g ! fromN)\<lparr>troops := troops (nodes g ! fromN)
                      - min trps (troops (nodes g ! fromN))\<rparr>]"
    define new where "new = \<lparr>afrom = fromN, ato = target,
                    atroops = min trps (troops (nodes g ! fromN)),
                    ateam = team (nodes g ! fromN), afinalDest = toN,
                    aid = armyCounter g, adistance = 0\<rparr>"
    have mo: "mapOk (nodes g)" and nn: "\<forall>node\<in>set (nodes g). 0 \<le> troops node"
      and ao: "\<forall>army\<in>set (armies g). armyOk (nodes g) army"
      using ok by (simp_all add: stateOk_def)
    have sm: "sameMap (nodes g) ns'"
      unfolding ns'_def by (intro sameMap_update sameMap_refl) simp
    have adjt: "target \<in> set (adj (nodes g ! fromN))" using dijkstra_adjacent[OF d] .
    then have tl: "target < length (nodes g)"
      and dl: "1 \<le> intDistance (nodes g ! fromN) (nodes g ! target)"
      using mo f by (auto simp: mapOk_def)
    have newok: "armyOk (nodes g) new"
      using f tl dl by (simp add: armyOk_def arrived_def new_def)
    have nni: "\<forall>k<length (nodes g). 0 \<le> troops (nodes g ! k)" using nn by simp
    then have nn': "\<forall>node\<in>set ns'. 0 \<le> troops node"
      using f unfolding ns'_def
      by (auto simp: in_set_conv_nth nth_list_update)
    have "\<forall>army\<in>set (armies g @ [new]). armyOk ns' army"
      using ao newok sameMap_armyOk[OF sm] by auto
    then show ?thesis
      unfolding g' stateOk_def ns'_def[symmetric] new_def[symmetric]
      using sameMap_mapOk[OF sm mo] nn' by simp
  qed
qed

lemma MapArmy_tick_armies:
  assumes n: "\<forall>k<length ns. 0 \<le> troops (ns ! k)"
    and a: "\<forall>a\<in>set as. afrom a < length ns \<and> ato a < length ns \<and> 0 \<le> adistance a"
    and t: "\<forall>a\<in>set as. arrived ns a \<longrightarrow> 0 \<le> atroops a"
  shows "\<forall>a\<in>set (t_armies (MapArmy_tick ns as r)).
           afrom a < length ns \<and> ato a < length ns \<and> 0 \<le> adistance a"
proof -
  let ?sorted = "sort_key (\<lambda>a. - adistance a) as"
  let ?start = "\<lparr>t_nodes = ns, t_armies = ?sorted, t_send = [], t_rng = r\<rparr>"
  let ?final = "fold armyStep [0..<length ?sorted] ?start"
  have init: "tickInv ns (length ?sorted) 0 ?start"
    using n armiesOk_sorted[OF a t] by (simp add: tickInv_def nodesOk_def sendOk_def)
  have step: "\<And>i s. i < length ?sorted \<Longrightarrow> tickInv ns (length ?sorted) i s
                \<Longrightarrow> tickInv ns (length ?sorted) (Suc i) (armyStep i s)"
    by (rule armyStep_inv)
  have "tickInv ns (length ?sorted) (length ?sorted) ?final"
    by (rule fold_upt_inv[where P = "tickInv ns (length ?sorted)", OF step init])
  then have "\<forall>j<length (t_armies ?final). afrom (t_armies ?final ! j) < length ns
                \<and> ato (t_armies ?final ! j) < length ns \<and> 0 \<le> adistance (t_armies ?final ! j)"
    by (simp add: tickInv_def armiesOk_def)
  then have "\<forall>a\<in>set (t_armies ?final). afrom a < length ns \<and> ato a < length ns \<and> 0 \<le> adistance a"
    by (simp add: all_set_conv_all_nth)
  moreover have "MapArmy_tick ns as r
        = ?final\<lparr>t_armies := filter (\<lambda>army. atroops army > 0) (t_armies ?final)\<rparr>"
    by (simp add: MapArmy_tick_def Let_def)
  ultimately show ?thesis by simp
qed

lemma stateOk_nodes_update:
  assumes "stateOk g" "sameMap (nodes g) ns'" "\<forall>node\<in>set ns'. 0 \<le> troops node"
  shows "stateOk (g\<lparr>nodes := ns'\<rparr>)"
  using assms sameMap_mapOk[OF assms(2)] sameMap_armyOk[OF assms(2)]
  by (simp add: stateOk_def)

lemma MapNode_tick_map:
  "xpos (MapNode_tick ns k t) = xpos (ns ! k) \<and> ypos (MapNode_tick ns k t) = ypos (ns ! k)
   \<and> adj (MapNode_tick ns k t) = adj (ns ! k)"
  by (simp add: MapNode_tick_def Let_def)

lemma nonneg_update:
  assumes "\<forall>node\<in>set ns. 0 \<le> troops node" "k < length ns \<Longrightarrow> 0 \<le> troops n'"
  shows "\<forall>node\<in>set (ns[k := n']). 0 \<le> troops node"
proof (cases "k < length ns")
  case True
  have "\<forall>j<length ns. 0 \<le> troops (ns ! j)" using assms(1) by simp
  then show ?thesis using assms(2) True by (auto simp: in_set_conv_nth nth_list_update)
next
  case False
  then show ?thesis using assms(1) by (simp add: list_update_beyond)
qed

lemma stateOk_nodeStep:
  assumes ok: "stateOk g" and k: "k < length (nodes g)" and s: "nodeStep k g = Some g'"
  shows "stateOk g'"
proof -
  define g1 where "g1 = g\<lparr>nodes := (nodes g)[k := MapNode_tick (nodes g) k (tickNumber g)]\<rparr>"
  have nn: "\<forall>node\<in>set (nodes g). 0 \<le> troops node" using ok by (simp add: stateOk_def)
  then have "0 \<le> troops (nodes g ! k)" using k by simp
  then have t0: "0 \<le> troops (MapNode_tick (nodes g) k (tickNumber g))"
    using MapNode_tick_troops[of "nodes g" k "tickNumber g"] by simp
  have ok1: "stateOk g1"
    unfolding g1_def
    using MapNode_tick_map[of "nodes g" k "tickNumber g"] t0
    by (intro stateOk_nodes_update[OF ok] sameMap_update sameMap_refl nonneg_update[OF nn]) simp_all
  have k1: "k < length (nodes g1)" using k by (simp add: g1_def)
  show ?thesis
  proof (cases "assign (nodes g1 ! k)")
    case None
    then show ?thesis using s ok1 by (simp add: nodeStep_def Let_def g1_def[symmetric])
  next
    case (Some target)
    show ?thesis
    proof (cases "jsrem (tickNumber g1) 8 = 0")
      case False
      then show ?thesis
        using Some s ok1 by (simp add: nodeStep_def Let_def g1_def[symmetric])
    next
      case True
      obtain b g2 where sa: "sendArmy (team (nodes g1 ! k)) k target (troops (nodes g1 ! k)) g1
                              = Some (b, g2)"
        using s Some True
        by (auto simp: nodeStep_def Let_def g1_def[symmetric] split: option.splits)
      have ok2: "stateOk g2" using stateOk_sendArmy[OF ok1 k1 sa] .
      have nn2: "\<forall>node\<in>set (nodes g2). 0 \<le> troops node" using ok2 by (simp add: stateOk_def)
      have ok3: "stateOk (g2\<lparr>nodes := (nodes g2)[k := (nodes g2 ! k)\<lparr>assign := None\<rparr>]\<rparr>)"
        by (intro stateOk_nodes_update[OF ok2] sameMap_update sameMap_refl nonneg_update[OF nn2])
           (use nn2 in simp_all)
      have "g' = g2 \<or> g' = g2\<lparr>nodes := (nodes g2)[k := (nodes g2 ! k)\<lparr>assign := None\<rparr>]\<rparr>"
        using s Some True sa
        by (auto simp: nodeStep_def Let_def g1_def[symmetric] split: if_splits)
      then show ?thesis using ok2 ok3 by auto
    qed
  qed
qed

lemma stateOk_sendStep:
  assumes "stateOk g" "fst e < length (nodes g)" "sendStep e g = Some g'"
  shows "stateOk g'"
proof -
  obtain b where "sendArmy (team (nodes g ! fst e)) (fst e) (fst (snd e)) (snd (snd e)) g
                    = Some (b, g')"
    using assms(3) by (auto simp: sendStep_def)
  then show ?thesis using stateOk_sendArmy[OF assms(1,2)] by blast
qed

lemma foldOpt_pres:
  assumes "\<And>x s s'. x \<in> set xs \<Longrightarrow> P s \<Longrightarrow> f x s = Some s' \<Longrightarrow> P s'" "P s"
    "foldOpt f xs s = Some s'"
  shows "P s'"
  using assms
proof (induction xs arbitrary: s)
  case Nil
  then show ?case by simp
next
  case (Cons x xs)
  then obtain s1 where s1: "f x s = Some s1" "foldOpt f xs s1 = Some s'"
    by (auto split: option.splits)
  have "P s1" using Cons.prems(1)[of x s s1] Cons.prems(2) s1(1) by simp
  then show ?case using Cons.IH[of s1] Cons.prems(1) s1(2) by auto
qed

lemma sendArmy_length:
  "sendArmy tm fromN toN trps g = Some (b, g') \<Longrightarrow> length (nodes g') = length (nodes g)"
  using sendArmy_cases[of tm fromN toN trps g b g'] by auto

lemma nodeStep_length:
  assumes "nodeStep k g = Some g'"
  shows "length (nodes g') = length (nodes g)"
proof -
  define g1 where "g1 = g\<lparr>nodes := (nodes g)[k := MapNode_tick (nodes g) k (tickNumber g)]\<rparr>"
  have l1: "length (nodes g1) = length (nodes g)" by (simp add: g1_def)
  show ?thesis
  proof (cases "assign (nodes g1 ! k)")
    case None
    then show ?thesis using assms l1 by (simp add: nodeStep_def Let_def g1_def[symmetric])
  next
    case (Some target)
    show ?thesis
    proof (cases "jsrem (tickNumber g1) 8 = 0")
      case False
      then show ?thesis
        using Some assms l1 by (simp add: nodeStep_def Let_def g1_def[symmetric])
    next
      case True
      obtain b g2 where sa: "sendArmy (team (nodes g1 ! k)) k target (troops (nodes g1 ! k)) g1
                              = Some (b, g2)"
        using assms Some True
        by (auto simp: nodeStep_def Let_def g1_def[symmetric] split: option.splits)
      have "g' = g2 \<or> g' = g2\<lparr>nodes := (nodes g2)[k := (nodes g2 ! k)\<lparr>assign := None\<rparr>]\<rparr>"
        using assms Some True sa
        by (auto simp: nodeStep_def Let_def g1_def[symmetric] split: if_splits)
      then show ?thesis using sendArmy_length[OF sa] l1 by auto
    qed
  qed
qed

lemma sendStep_length:
  "sendStep e g = Some g' \<Longrightarrow> length (nodes g') = length (nodes g)"
  using sendArmy_length by (auto simp: sendStep_def)

lemma stateOk_Game_tick:
  assumes ok: "stateOk g" and tk: "Game_tick g = Some g'"
  shows "stateOk g'"
proof -
  define g1 where "g1 = g\<lparr>tickNumber := tickNumber g + 1\<rparr>"
  define s where "s = MapArmy_tick (nodes g1) (armies g1) (rng g1)"
  define g2 where "g2 = g1\<lparr>nodes := t_nodes s, armies := t_armies s, rng := t_rng s\<rparr>"
  define N where "N = length (nodes g)"
  have mo: "mapOk (nodes g)" and n: "\<forall>node\<in>set (nodes g). 0 \<le> troops node"
    and ao: "\<forall>army\<in>set (armies g). armyOk (nodes g) army"
    using ok by (simp_all add: stateOk_def)
  have n': "\<forall>k<length (nodes g). 0 \<le> troops (nodes g ! k)" using n by simp
  have a: "\<forall>army\<in>set (armies g). afrom army < length (nodes g) \<and> ato army < length (nodes g)
              \<and> 0 \<le> adistance army"
    and t: "\<forall>army\<in>set (armies g). arrived (nodes g) army \<longrightarrow> 0 \<le> atroops army"
    using ao by (simp_all add: armyOk_def)
  have mt: "length (t_nodes s) = N" "\<forall>k<N. 0 \<le> troops (t_nodes s ! k)"
    "\<forall>a\<in>set (t_armies s). 0 < atroops a" "sendOk (nodes g) (t_send s)"
    using MapArmy_tick_ok[OF n' a t, of "rng g"] by (simp_all add: s_def g1_def N_def)
  have ma: "\<forall>a\<in>set (t_armies s). afrom a < length (nodes g) \<and> ato a < length (nodes g)
              \<and> 0 \<le> adistance a"
    using MapArmy_tick_armies[OF n' a t, of "rng g"] by (simp add: s_def g1_def)
  have sm: "sameMap (nodes g) (t_nodes s)"
    using MapArmy_tick_sameMap[of "nodes g" "armies g" "rng g"] by (simp add: s_def g1_def)
  have "\<forall>node\<in>set (t_nodes s). 0 \<le> troops node"
    using mt(1,2) by (simp add: all_set_conv_all_nth)
  moreover have "\<forall>army\<in>set (t_armies s). armyOk (t_nodes s) army"
    using ma mt(1,3) by (auto simp: armyOk_def N_def order_less_imp_le)
  ultimately have ok2: "stateOk g2"
    using sameMap_mapOk[OF sm mo] by (simp add: stateOk_def g2_def)
  let ?P = "\<lambda>h. stateOk h \<and> length (nodes h) = N"
  have P2: "?P g2"
    using ok2 mt(1) by (simp add: g2_def)
  have eq: "Game_tick g = (case foldOpt nodeStep [0..<length (nodes g2)] g2 of
                          None \<Rightarrow> None | Some g3 \<Rightarrow> foldOpt sendStep (t_send s) g3)"
    by (simp add: Game_tick_def Let_def g2_def s_def g1_def cong: option.case_cong)
  then obtain g3 where g3: "foldOpt nodeStep [0..<length (nodes g2)] g2 = Some g3"
    and g4: "foldOpt sendStep (t_send s) g3 = Some g'"
    using tk by (auto split: option.splits)
  have P3: "?P g3"
  proof (rule foldOpt_pres[where P = ?P, OF _ P2 g3])
    fix x h h' assume "x \<in> set [0..<length (nodes g2)]" "?P h" "nodeStep x h = Some h'"
    then show "?P h'"
      using P2 stateOk_nodeStep[of h x h'] nodeStep_length[of x h h'] by auto
  qed
  have "?P g'"
  proof (rule foldOpt_pres[where P = ?P, OF _ P3 g4])
    fix e h h' assume "e \<in> set (t_send s)" "?P h" "sendStep e h = Some h'"
    then show "?P h'"
      using mt(4) stateOk_sendStep[of h e h'] sendStep_length[of e h h']
      by (auto simp: sendOk_def N_def)
  qed
  then show ?thesis by simp
qed

lemma stateOk_build:
  assumes "stateOk g"
  shows "stateOk (snd (build tm node ty g))"
proof (cases "fst (build tm node ty g)")
  case False
  then have "snd (build tm node ty g) = g"
    by (auto simp: build_def Let_def split: option.splits)
  then show ?thesis using assms by simp
next
  case True
  then obtain cost where c: "buildingCosts ty = Some cost" "cost \<le> troops (nodes g ! node)"
    and r: "snd (build tm node ty g) =
              g\<lparr>nodes := (nodes g)[node :=
                   (nodes g ! node)\<lparr>type := ty, troops := troops (nodes g ! node) - cost\<rparr>]\<rparr>"
    by (auto simp: build_def Let_def split: option.splits if_splits)
  have nn: "\<forall>node\<in>set (nodes g). 0 \<le> troops node" using assms by (simp add: stateOk_def)
  show ?thesis
    unfolding r
    by (intro stateOk_nodes_update[OF assms] sameMap_update sameMap_refl nonneg_update[OF nn])
       (use c in simp_all)
qed

lemma stateOk_assign:
  assumes "stateOk g" "assign_cmd tm fromN toN g = Some (b, g')"
  shows "stateOk g'"
proof -
  have nn: "\<forall>node\<in>set (nodes g). 0 \<le> troops node" using assms by (simp add: stateOk_def)
  have "g' = g \<or> (\<exists>t. g' = g\<lparr>nodes := (nodes g)[fromN := (nodes g ! fromN)\<lparr>assign := t\<rparr>]\<rparr>)"
    using assms(2) by (auto simp: assign_cmd_def split: if_splits option.splits)
  moreover have "stateOk (g\<lparr>nodes := (nodes g)[fromN := (nodes g ! fromN)\<lparr>assign := t\<rparr>]\<rparr>)" for t
    by (intro stateOk_nodes_update[OF assms(1)] sameMap_update sameMap_refl nonneg_update[OF nn])
       (use nn in simp_all)
  ultimately show ?thesis using assms(1) by auto
qed

lemma stateOk_unassign:
  assumes "stateOk g"
  shows "stateOk (snd (unassign tm fromN g))"
proof -
  have nn: "\<forall>node\<in>set (nodes g). 0 \<le> troops node" using assms by (simp add: stateOk_def)
  have "stateOk (g\<lparr>nodes := (nodes g)[fromN := (nodes g ! fromN)\<lparr>assign := None\<rparr>]\<rparr>)"
    by (intro stateOk_nodes_update[OF assms(1)] sameMap_update sameMap_refl nonneg_update[OF nn])
       (use nn in simp_all)
  then show ?thesis using assms by (simp add: unassign_def)
qed

lemma stateOk_forfeit:
  assumes "stateOk g"
  shows "stateOk (snd (forfeit tm g))"
proof (cases "tm = Neutral")
  case True
  then show ?thesis using assms by (simp add: forfeit_def)
next
  case False
  let ?f = "\<lambda>node. if team node = tm
                then node\<lparr>team := Neutral, type := Normal, troops := 0\<rparr> else node"
  have sm: "sameMap (nodes g) (map ?f (nodes g))"
    by (simp add: sameMap_def comp_def if_distrib cong: if_cong)
  have nn: "\<forall>node\<in>set (map ?f (nodes g)). 0 \<le> troops node"
    using assms by (auto simp: stateOk_def)
  have 1: "stateOk (g\<lparr>nodes := map ?f (nodes g)\<rparr>)"
    by (rule stateOk_nodes_update[OF assms sm nn])
  have "stateOk (g\<lparr>nodes := map ?f (nodes g), armies := filter (\<lambda>army. ateam army \<noteq> tm) (armies g)\<rparr>)"
    using 1 by (simp add: stateOk_def)
  then show ?thesis using False by (simp add: forfeit_def)
qed

lemma stateOk_start:
  assumes "mapOk ns" "\<forall>node\<in>set ns. 0 \<le> troops node"
  shows "stateOk \<lparr>nodes = ns, armies = [], tickNumber = 0, armyCounter = 0, rng = r\<rparr>"
  using assms by (simp add: stateOk_def)

lemma stateOk_hypotheses:
  assumes "stateOk g"
  shows "(\<forall>node\<in>set (nodes g). 0 \<le> troops node)
     \<and> (\<forall>army\<in>set (armies g). afrom army < length (nodes g) \<and> ato army < length (nodes g)
              \<and> 0 \<le> adistance army)
     \<and> (\<forall>army\<in>set (armies g).
              adistance army = intDistance (nodes g ! afrom army) (nodes g ! ato army)
              \<longrightarrow> 0 \<le> atroops army)"
  using assms by (simp add: stateOk_def armyOk_def arrived_def)

subsection \<open>A tick over integer troop counts\<close>

text \<open>
  Take a game in which no node has a negative troop count, every army travels between
  nodes of the map with a progress that is not negative, and no army that has reached
  the end of its edge has a negative troop count. Then \<^verbatim>\<open>Game.tick()\<close> completes, and
  when it does every node's troop count is non-negative and every army in the active
  set has a strictly positive troop count. The hypotheses follow from \<open>stateOk\<close>,
  which holds at the start and is kept by \<^verbatim>\<open>build\<close>, \<^verbatim>\<open>sendArmy\<close> (with any
  integer for the requested amount), \<^verbatim>\<open>assign\<close>, \<^verbatim>\<open>unassign\<close>, \<^verbatim>\<open>forfeit\<close> and
  \<^verbatim>\<open>tick\<close>. It says nothing of a game in which a troop count is not an integer.
\<close>

theorem Game_tick_troops_in_range:
  assumes n: "\<forall>node\<in>set (nodes g). 0 \<le> troops node"
    and a: "\<forall>army\<in>set (armies g). afrom army < length (nodes g) \<and> ato army < length (nodes g)
              \<and> 0 \<le> adistance army"
    and t: "\<forall>army\<in>set (armies g).
              adistance army = intDistance (nodes g ! afrom army) (nodes g ! ato army)
              \<longrightarrow> 0 \<le> atroops army"
  shows "\<exists>g'. Game_tick g = Some g' \<and> (\<forall>node\<in>set (nodes g'). 0 \<le> troops node)
           \<and> (\<forall>army\<in>set (armies g'). 0 < atroops army)"
proof -
  define g1 where "g1 = g\<lparr>tickNumber := tickNumber g + 1\<rparr>"
  define s where "s = MapArmy_tick (nodes g1) (armies g1) (rng g1)"
  define g2 where "g2 = g1\<lparr>nodes := t_nodes s, armies := t_armies s, rng := t_rng s\<rparr>"
  define N where "N = length (nodes g)"
  have n': "\<forall>k<length (nodes g). 0 \<le> troops (nodes g ! k)"
    using n by simp
  have t': "\<forall>army\<in>set (armies g). arrived (nodes g) army \<longrightarrow> 0 \<le> atroops army"
    using t by (simp add: arrived_def)
  have mt: "length (t_nodes s) = N" "\<forall>k<N. 0 \<le> troops (t_nodes s ! k)"
    "\<forall>a\<in>set (t_armies s). 0 < atroops a" "sendOk (nodes g) (t_send s)"
    using MapArmy_tick_ok[OF n' a t', of "rng g"] by (simp_all add: s_def g1_def N_def)
  let ?P = "\<lambda>h. gameOk h \<and> length (nodes h) = N"
  have P2: "?P g2"
    using mt by (simp add: gameOk_def g2_def)
  have "\<exists>g3. foldOpt nodeStep [0..<length (nodes g2)] g2 = Some g3 \<and> ?P g3"
  proof (rule foldOpt_inv[where P = ?P, OF _ P2])
    fix x h assume "x \<in> set [0..<length (nodes g2)]" "?P h"
    then have "gameOk h" "x < length (nodes h)" using P2 by auto
    from nodeStep_ok[OF this] \<open>?P h\<close> show "\<exists>s'. nodeStep x h = Some s' \<and> ?P s'"
      by auto
  qed
  then obtain g3 where g3: "foldOpt nodeStep [0..<length (nodes g2)] g2 = Some g3" "?P g3"
    by blast
  have "\<exists>g4. foldOpt sendStep (t_send s) g3 = Some g4 \<and> ?P g4"
  proof (rule foldOpt_inv[where P = ?P, OF _ g3(2)])
    fix e h assume "e \<in> set (t_send s)" "?P h"
    then have "gameOk h" "fst e < length (nodes h)" "0 \<le> snd (snd e)"
      using mt(4) by (auto simp: sendOk_def N_def)
    from sendStep_ok[OF this] \<open>?P h\<close> show "\<exists>s'. sendStep e h = Some s' \<and> ?P s'"
      by auto
  qed
  then obtain g4 where g4: "foldOpt sendStep (t_send s) g3 = Some g4" "?P g4"
    by blast
  have "Game_tick g = (case foldOpt nodeStep [0..<length (nodes g2)] g2 of
                          None \<Rightarrow> None | Some g3 \<Rightarrow> foldOpt sendStep (t_send s) g3)"
    by (simp add: Game_tick_def Let_def g2_def s_def g1_def cong: option.case_cong)
  then have "Game_tick g = Some g4"
    using g3(1) g4(1) by simp
  moreover have "\<forall>node\<in>set (nodes g4). 0 \<le> troops node"
    using g4(2) by (auto simp: gameOk_def in_set_conv_nth)
  moreover have "\<forall>army\<in>set (armies g4). 0 < atroops army"
    using g4(2) by (simp add: gameOk_def)
  ultimately show ?thesis by blast
qed

text \<open>
  In \<open>battleGame\<close> the tick is the eighth: the army of 300 fights the 200 troops of
  node 2 (296 against 194 are left), the army of 20 joins node 1 and is sent on, and the
  standing order empties node 0.
\<close>

theorem Game_tick_troops_in_range_witness:
  "\<exists>g'. Game_tick battleGame = Some g' \<and> (\<forall>node\<in>set (nodes g'). 0 \<le> troops node)
     \<and> (\<forall>army\<in>set (armies g'). 0 < atroops army)
     \<and> map troops (nodes g') = [0, 11, 194] \<and> map atroops (armies g') = [296, 51, 20]"
proof -
  have "\<exists>g'. Game_tick battleGame = Some g' \<and> (\<forall>node\<in>set (nodes g'). 0 \<le> troops node)
           \<and> (\<forall>army\<in>set (armies g'). 0 < atroops army)"
    using Game_tick_troops_in_range[of battleGame]
    by (simp add: battleGame_def lineMap_def mkNode_def intDistance_def distance_def)
  moreover have "\<exists>g'. Game_tick battleGame = Some g' \<and> map troops (nodes g') = [0, 11, 194]
     \<and> map atroops (armies g') = [296, 51, 20]"
    by (simp add: Game_tick_def nodeStep_def sendStep_def sendArmy_def MapNode_tick_def
        jsrem_def MapArmy_tick_def battleGame_def armyStep_def Let_def battleNode_def
        battle_def lossMeanRatio_def lossRadius_def shift_def upt_rec[of 0 2] upt3 dijkstra_def
        selectNext_def relax_def distLess_def walkBack.simps lineMap_def mkNode_def
        intDistance_def distance_def)
  ultimately show ?thesis by auto
qed

subsection \<open>A request that is not a number\<close>

text \<open>
  On \<open>battleGame\<close> the tick over \<open>number\<close> ends as the tick over the integers does
  (the same troop counts as in \<open>Game_tick_troops_in_range_witness\<close>).
\<close>

lemma Game_tick_num_battleGame:
  "map_option (\<lambda>g. (map troops (nodes g), map atroops (armies g))) (Game_tick_num battleGame_num)
     = Some ([Num 0, Num 11, Num 194], [Num 296, Num 51, Num 20])"
  by (simp add: Game_tick_num_def nodeStep_num_def sendStep_num_def sendArmy_num_def
        MapNode_tick_num_def jsrem_def MapArmy_tick_num_def battleGame_num_def armyStep_num_def
        Let_def battleNode_num_def battle_num_def lossMeanRatio_def lossRadius_def shift_def
        plus_number_def minus_number_def times_number_def divide_number_def
        less_eq_number_def less_number_def Math_min_def Math_max_def Math_ceil_def
        upt_rec[of 0 2] upt3 dijkstra_def dijkstraLoop.simps selectNext_def relax_def distLess_def
        walkBack.simps lineMap_num_def mkNode_def intDistance_def distance_def)

lemma dijkstra_orderedGame_num_0_1: "dijkstra (nodes orderedGame_num) 0 1 = Some (Some 1)"
  by (simp add: dijkstra_def dijkstraLoop.simps selectNext_def relax_def distLess_def
      orderedGame_num_def lineMap_num_def distance_def mkNode_def upt3 walkBack.simps Let_def)

text \<open>
  C3 fails in the code. In \<open>orderedGame_num\<close> node 0 of Red holds 50 troops and has a
  standing order for node 1. \<^verbatim>\<open>sendArmy\<close> with \<^verbatim>\<open>NaN\<close> for \<^verbatim>\<open>troops\<close> reports success and
  leaves \<open>nanGame\<close>: node 0 holds \<^verbatim>\<open>NaN\<close> troops and an army of \<^verbatim>\<open>NaN\<close> troops is
  under way. The tick that follows, the eighth, completes. The filter of
  \<^verbatim>\<open>MapArmy.tick\<close> removes that army, production leaves node 0 at \<^verbatim>\<open>NaN\<close>, and the
  standing order sends \<^verbatim>\<open>NaN\<close> troops again, after the filter: when the tick completes
  node 0 holds \<^verbatim>\<open>NaN\<close> troops, which is not a count of at least 0, and the active
  army set holds the army with id 1 and \<^verbatim>\<open>NaN\<close> troops, which is not a count above 0.
\<close>

theorem sendArmy_NaN_breaks_tick_invariant:
  "sendArmy_num Red 0 1 NaN orderedGame_num = Some (True, nanGame)
   \<and> map_option (\<lambda>g. (map troops (nodes g), map atroops (armies g), map aid (armies g)))
         (Game_tick_num nanGame)
       = Some ([NaN, Num 11, Num 201], [NaN], [1])
   \<and> \<not> Num 0 \<le> NaN \<and> \<not> Num 0 < NaN"
proof -
  have "sendArmy_num Red 0 1 NaN orderedGame_num = Some (True, nanGame)"
    using dijkstra_orderedGame_num_0_1
    by (simp add: sendArmy_num_def Math_min_def minus_number_def orderedGame_num_def
        nanGame_def lineMap_num_def mkNode_def Let_def)
  moreover have "map_option (\<lambda>g. (map troops (nodes g), map atroops (armies g), map aid (armies g)))
         (Game_tick_num nanGame)
       = Some ([NaN, Num 11, Num 201], [NaN], [1])"
    by (simp add: Game_tick_num_def nodeStep_num_def sendStep_num_def sendArmy_num_def
        MapNode_tick_num_def jsrem_def MapArmy_tick_num_def nanGame_def armyStep_num_def
        Let_def plus_number_def minus_number_def less_number_def Math_min_def collides_def
        areCollidingTail_def areCollidingHead_def sameDirection_def oppositeDirection_def
        upt3 dijkstra_def dijkstraLoop.simps selectNext_def relax_def distLess_def
        walkBack.simps lineMap_num_def mkNode_def intDistance_def distance_def)
  moreover have "\<not> Num 0 \<le> NaN" "\<not> Num 0 < NaN"
    by (simp_all add: less_eq_number_def less_number_def)
  ultimately show ?thesis by simp
qed

text \<open>
  So after that request the tick completes with a node whose troop count is not at
  least 0 and with an active army whose troop count is not above 0.
\<close>

theorem sendArmy_NaN_breaks_tick_invariant_witness:
  "\<exists>g g'. sendArmy_num Red 0 1 NaN orderedGame_num = Some (True, g)
      \<and> Game_tick_num g = Some g'
      \<and> (\<exists>node\<in>set (nodes g'). \<not> Num 0 \<le> troops node)
      \<and> (\<exists>army\<in>set (armies g'). \<not> Num 0 < atroops army)"
proof -
  from sendArmy_NaN_breaks_tick_invariant
  obtain g' where s: "sendArmy_num Red 0 1 NaN orderedGame_num = Some (True, nanGame)"
    and t: "Game_tick_num nanGame = Some g'"
    and n: "map troops (nodes g') = [NaN, Num 11, Num 201]"
    and a: "map atroops (armies g') = [NaN]"
    and c: "\<not> Num 0 \<le> NaN" "\<not> Num 0 < NaN"
    by auto
  have "NaN \<in> set (map troops (nodes g'))" "NaN \<in> set (map atroops (armies g'))"
    using n a by simp_all
  then obtain node army where "node \<in> set (nodes g')" "troops node = NaN"
    "army \<in> set (armies g')" "atroops army = NaN"
    by auto
  with s t c show ?thesis
    by metis
qed

end
